theory Spec2Isabelle
  imports
    Main
    "HOL-Library.Finite_Map"
    "HOL-Library.Char_ord"
    "HOL-Library.List_Lexorder"
begin

section \<open>Decoded JSON values\<close>

text \<open>
  The policy is handled as the value \<^verbatim>\<open>json.Unmarshal\<close> stores in a
  \<^verbatim>\<open>map[string]interface{}\<close>. An \<^verbatim>\<open>interface{}\<close> holds a value together with its
  dynamic type, and the type assertions of the normalizer test that type, so the model has one
  constructor per dynamic type that occurs:
  \<^item> \<open>JNull\<close>: the nil interface (JSON null; also what indexing a map with an absent key gives);
  \<^item> \<open>JBool\<close>, \<open>JNum\<close>, \<open>JStr\<close>: bool, float64, string (the normalizer never looks inside a
    number, an \<open>int\<close> stands for the float64);
  \<^item> \<open>JArr\<close>: \<^verbatim>\<open>[]interface{}\<close>, the type of every decoded JSON array;
  \<^item> \<open>JObj\<close>: \<^verbatim>\<open>map[string]interface{}\<close>, the type of every decoded JSON object;
  \<^item> \<open>JMaps\<close>: \<^verbatim>\<open>[]map[string]interface{}\<close>, the type of the slices the normalizer builds
    with \<^verbatim>\<open>make([]map[string]interface{}, 0)\<close> and stores back into the tree.
  A Go map is a finite map; the order in which \<^verbatim>\<open>range\<close> walks it is not part of the value.
\<close>

datatype jv =
    JNull
  | JBool bool
  | JNum int
  | JStr string
  | JArr "jv list"
  | JObj "(string, jv) fmap"
  | JMaps "(string, jv) fmap list"

type_synonym obj = "(string, jv) fmap"

text \<open>
  The panics: a failed single-value type assertion \<^verbatim>\<open>x.(T)\<close>, an index out of range, a
  nil pointer dereference, an assignment to an entry of a nil map, and \<^verbatim>\<open>panic(err)\<close>.
  An \<^verbatim>\<open>error\<close> value is its message.
\<close>

datatype error =
  TypeAssertionPanic | IndexPanic | NilPointerPanic | NilMapPanic | ErrorPanic string

section \<open>The policy normalizer\<close>

subsection \<open>standardizeMatchFeature\<close>

text \<open>\<^verbatim>\<open>strings.Replace(k, "-", "_", -1)\<close>: every occurrence of the one-byte string is replaced.\<close>

definition Replace_hyphens :: "string \<Rightarrow> string" where
  "Replace_hyphens k = map (\<lambda>c. if c = CHR ''-'' then CHR ''_'' else c) k"

text \<open>\<^verbatim>\<open>strings.Join(elems, sep)\<close>.\<close>

fun Join :: "string list \<Rightarrow> string \<Rightarrow> string" where
  "Join [] sep = ''''"
| "Join [s] sep = s"
| "Join (s # t # ss) sep = s @ sep @ Join (t # ss) sep"

text \<open>
  Modelled from the spec: \<^verbatim>\<open>helper.ConvertSliceToStrings\<close> is not among the source files.
  The spec has the join happen when "every element of that array is representable as a string"
  and has one element that is not (its example: a nested object) abort it; the model converts a
  slice exactly when each element holds a string, and returns the strings in order.
\<close>

fun ConvertSliceToStrings :: "jv list \<Rightarrow> string list option" where
  "ConvertSliceToStrings [] = Some []"
| "ConvertSliceToStrings (JStr s # vs) = map_option ((#) s) (ConvertSliceToStrings vs)"
| "ConvertSliceToStrings (_ # vs) = None"

text \<open>What the loop body does to the value \<^verbatim>\<open>v\<close> before it stores it (lines 262 to 266).\<close>

definition standardize_value :: "jv \<Rightarrow> jv" where
  "standardize_value v =
     (case v of
        JArr valArray \<Rightarrow>
          (case ConvertSliceToStrings valArray of
             Some stringArray \<Rightarrow> JStr (Join stringArray '' '')
           | None \<Rightarrow> v)
      | _ \<Rightarrow> v)"

text \<open>
  One round of the loop \<^verbatim>\<open>for k, v := range matchFeatureMap\<close>, for the key \<open>k\<close> that
  \<^verbatim>\<open>range\<close> produces: \<open>v\<close> is the value stored under \<open>k\<close> at that moment; the entry is
  deleted and the standardized value is stored under the standardized key. A key that is no
  longer in the map is not produced, so its round does nothing.
\<close>

definition smf_body :: "string \<Rightarrow> obj \<Rightarrow> obj" where
  "smf_body k m =
     (case fmlookup m k of
        None \<Rightarrow> m
      | Some v \<Rightarrow> fmupd (Replace_hyphens k) (standardize_value v) (fmdrop k m))"

text \<open>
  The loop mutates the map it ranges over. Go leaves the order of \<^verbatim>\<open>range\<close> over a map
  unspecified, produces every entry that is there from the start and not removed before it is
  reached, and may or may not produce an entry created during the loop. The model takes the
  sequence \<open>ks\<close> of keys in the order \<^verbatim>\<open>range\<close> comes to them; \<open>range_order ks m\<close> says
  that every key of the map at the start is in the sequence. A key re-created by the body may
  occur again later in \<open>ks\<close>, or not.
\<close>

definition standardizeMatchFeature :: "string list \<Rightarrow> obj \<Rightarrow> obj" where
  "standardizeMatchFeature ks matchFeatureMap = fold smf_body ks matchFeatureMap"

definition range_order :: "string list \<Rightarrow> obj \<Rightarrow> bool" where
  "range_order ks m \<longleftrightarrow> fmdom' m \<subseteq> set ks"

text \<open>
  The callers of \<open>standardizeMatchFeature\<close> get the order from \<open>ord\<close>, which stands for the Go
  runtime. Go chooses the order anew for every \<^verbatim>\<open>range\<close> loop it runs, so the order is
  taken per loop and not per map: \<open>ord p m\<close> is the order in which the loop run on the object at
  place \<open>p\<close> of the tree produces the keys of \<open>m\<close>, the map as it is when that loop starts. Two
  equal maps at two places may be walked in two different orders. \<open>key_order\<close> is one choice,
  the keys ascending at every place, each once.

  The place of an object is the path that leads to it, the last step first. Rule \<open>i\<close> of the
  policy has the place \<open>[i]\<close>; entry \<open>j\<close> of its \<^verbatim>\<open>matches\<close> has \<open>[j, i]\<close>; for a match at
  \<open>q\<close>, entry \<open>j\<close> of its child \<^verbatim>\<open>matches\<close> has \<open>j # 0 # q\<close> and entry \<open>j\<close> of its
  \<^verbatim>\<open>features\<close> has \<open>j # 1 # q\<close>. Every object that cleanPolicy standardizes is standardized
  once, so each loop of a run has a place of its own.
\<close>

type_synonym place = "nat list"

definition range_orders :: "(place \<Rightarrow> obj \<Rightarrow> string list) \<Rightarrow> bool" where
  "range_orders ord \<longleftrightarrow> (\<forall>p m. range_order (ord p m) m)"

definition key_order :: "place \<Rightarrow> obj \<Rightarrow> string list" where
  "key_order p m = sorted_list_of_fset (fmdom m)"

text \<open>
  Another choice, which walks equal maps at different places differently: ascending where the
  indices of the place add up to an even number, descending elsewhere.
\<close>

definition alternating_order :: "place \<Rightarrow> obj \<Rightarrow> string list" where
  "alternating_order p m = (if even (sum_list p) then key_order p m else rev (key_order p m))"

subsection \<open>cleanMatches and cleanPolicy\<close>

text \<open>
  The loop over \<^verbatim>\<open>features\<close> inside cleanMatches (lines 239 to 244); \<open>p\<close> is the place of
  the slice and \<open>j\<close> the index the loop has reached.
\<close>

fun cleanFeatures ::
  "(place \<Rightarrow> obj \<Rightarrow> string list) \<Rightarrow> place \<Rightarrow> nat \<Rightarrow> jv list \<Rightarrow> error + obj list" where
  "cleanFeatures ord p j [] = Inr []"
| "cleanFeatures ord p j (feature # features) =
     (case feature of
        JObj f \<Rightarrow>
          (let cleanedFeature =
                 standardizeMatchFeature (ord (j # p) (fmdrop ''ordinal'' f))
                   (fmdrop ''ordinal'' f)
           in case cleanFeatures ord p (Suc j) features of
                Inl e \<Rightarrow> Inl e
              | Inr cleanedFeatures \<Rightarrow> Inr (cleanedFeature # cleanedFeatures))
      | _ \<Rightarrow> Inl TypeAssertionPanic)"

text \<open>
  Lines 236 to 247: the \<^verbatim>\<open>features\<close> of the match at place \<open>q\<close>, when that is a
  \<^verbatim>\<open>[]interface{}\<close>.
\<close>

definition cleanMatchFeatures ::
  "(place \<Rightarrow> obj \<Rightarrow> string list) \<Rightarrow> place \<Rightarrow> obj \<Rightarrow> error + obj" where
  "cleanMatchFeatures ord q cleanedMatch =
     (case fmlookup cleanedMatch ''features'' of
        Some (JArr features) \<Rightarrow>
          (case cleanFeatures ord (1 # q) 0 features of
             Inl e \<Rightarrow> Inl e
           | Inr cleanedFeatures \<Rightarrow>
               Inr (fmupd ''features'' (JMaps cleanedFeatures) cleanedMatch))
      | _ \<Rightarrow> Inr cleanedMatch)"

text \<open>\<^verbatim>\<open>cleanedMatches = append(cleanedMatches, cleanedMatch)\<close>, a panic on either side kept.\<close>

definition append_cleaned :: "error + obj \<Rightarrow> error + obj list \<Rightarrow> error + obj list" where
  "append_cleaned cleanedMatch rest =
     (case cleanedMatch of
        Inl e \<Rightarrow> Inl e
      | Inr m \<Rightarrow> (case rest of Inl e \<Rightarrow> Inl e | Inr ms \<Rightarrow> Inr (m # ms)))"

text \<open>
  cleanMatches: the loop over \<^verbatim>\<open>matches\<close> is the recursion on the list, with \<open>p\<close> the place
  of the slice and \<open>i\<close> the index the loop has reached; the recursive call on
  \<^verbatim>\<open>childMatches\<close> is the one of the source. The result is the new
  \<^verbatim>\<open>[]map[string]interface{}\<close>. The source changes each map where it is; no map of a
  decoded tree is in two places, so the value built here is the tree the source leaves. After a
  panic nothing of the tree is used.
\<close>

function cleanMatches ::
  "(place \<Rightarrow> obj \<Rightarrow> string list) \<Rightarrow> place \<Rightarrow> nat \<Rightarrow> jv list \<Rightarrow> error + obj list" where
  "cleanMatches ord p i [] = Inr []"
| "cleanMatches ord p i (match # matches) =
     (case match of
        JObj m \<Rightarrow>
          (let cleanedMatch =
                 standardizeMatchFeature (ord (i # p) (fmdrop ''ordinal'' m))
                   (fmdrop ''ordinal'' m)
           in case fmlookup cleanedMatch ''matches'' of
                Some (JArr childMatches) \<Rightarrow>
                  (case cleanMatches ord (0 # i # p) 0 childMatches of
                     Inl e \<Rightarrow> Inl e
                   | Inr cs \<Rightarrow>
                       append_cleaned
                         (cleanMatchFeatures ord (i # p)
                            (fmupd ''matches'' (JMaps cs) cleanedMatch))
                         (cleanMatches ord p (Suc i) matches))
              | _ \<Rightarrow>
                  append_cleaned (cleanMatchFeatures ord (i # p) cleanedMatch)
                    (cleanMatches ord p (Suc i) matches))
      | _ \<Rightarrow> Inl TypeAssertionPanic)"
  by pat_completeness auto

lemma standardize_value_JArr:
  "standardize_value v = JArr xs \<Longrightarrow> v = JArr xs"
  by (auto simp: standardize_value_def split: jv.splits option.splits)

lemma fmran'_smf_body_JArr:
  "JArr xs \<in> fmran' (smf_body k m) \<Longrightarrow> JArr xs \<in> fmran' m"
  by (auto simp: smf_body_def fmran'_def dest: standardize_value_JArr
      split: option.splits if_splits)

lemma fmran'_standardizeMatchFeature_JArr:
  "JArr xs \<in> fmran' (standardizeMatchFeature ks m) \<Longrightarrow> JArr xs \<in> fmran' m"
  unfolding standardizeMatchFeature_def
  by (induction ks arbitrary: m) (auto dest: fmran'_smf_body_JArr)

lemma size_fmran':
  assumes "v \<in> fmran' m"
  shows "size v < size_fmap (\<lambda>_. 0) size m"
proof -
  from assms obtain k where "fmlookup m k = Some v"
    by (auto simp: fmran'_def)
  then have mem: "(k, v) \<in> fset (fset_of_fmap m)"
    by simp
  have "(\<Sum>x\<in>fset (fset_of_fmap m). Suc (case x of (a, x) \<Rightarrow> size x))
        \<ge> (\<Sum>x\<in>{(k, v)}. Suc (case x of (a, x) \<Rightarrow> size x))"
    by (rule sum_mono2) (use mem in auto)
  then show ?thesis
    by simp
qed

lemma cleanMatches_child_size:
  assumes "fmlookup (standardizeMatchFeature ks (fmdrop k m)) k' = Some (JArr cs)"
  shows "size_list size cs < size_fmap (\<lambda>_. 0) size m"
proof -
  from assms have "JArr cs \<in> fmran' (standardizeMatchFeature ks (fmdrop k m))"
    by (auto simp: fmran'_def)
  then have "JArr cs \<in> fmran' (fmdrop k m)"
    by (rule fmran'_standardizeMatchFeature_JArr)
  then have "JArr cs \<in> fmran' m"
    by (auto simp: fmran'_def split: if_splits)
  then have "size (JArr cs) < size_fmap (\<lambda>_. 0) size m"
    by (rule size_fmran')
  then show ?thesis
    by simp
qed

termination cleanMatches
  by (relation "measure (\<lambda>(ord, p, i, ms). size_list size ms)")
    (auto simp del: size_fmap_def dest!: cleanMatches_child_size)

text \<open>The \<^verbatim>\<open>delete\<close> calls on the root (lines 189 to 196) and on a rule (lines 203 to 208).\<close>

definition policy_metadata :: "string list" where
  "policy_metadata =
     [''id'', ''@id'', ''@type'', ''policy_type'', ''state'', ''history'', ''created_at'',
      ''updated_at'']"

definition rule_metadata :: "string list" where
  "rule_metadata = [''id'', ''@id'', ''@type'', ''ordinal'', ''created_at'', ''updated_at'']"

text \<open>
  Lines 210 to 213: the \<^verbatim>\<open>matches\<close> of rule \<open>i\<close>, when that is a \<^verbatim>\<open>[]interface{}\<close>.
\<close>

definition cleanRuleMatches ::
  "(place \<Rightarrow> obj \<Rightarrow> string list) \<Rightarrow> nat \<Rightarrow> obj \<Rightarrow> error + obj" where
  "cleanRuleMatches ord i ruleMap =
     (case fmlookup ruleMap ''matches'' of
        Some (JArr matches) \<Rightarrow>
          (case cleanMatches ord [i] 0 matches of
             Inl e \<Rightarrow> Inl e
           | Inr cleanedMatches \<Rightarrow> Inr (fmupd ''matches'' (JMaps cleanedMatches) ruleMap))
      | _ \<Rightarrow> Inr ruleMap)"

text \<open>The loop over \<^verbatim>\<open>rules\<close> in cleanPolicy (lines 201 to 216), at index \<open>i\<close>.\<close>

fun cleanRules ::
  "(place \<Rightarrow> obj \<Rightarrow> string list) \<Rightarrow> nat \<Rightarrow> jv list \<Rightarrow> error + obj list" where
  "cleanRules ord i [] = Inr []"
| "cleanRules ord i (rule # rules) =
     (case rule of
        JObj ruleMap \<Rightarrow>
          append_cleaned (cleanRuleMatches ord i (fold fmdrop rule_metadata ruleMap))
            (cleanRules ord (Suc i) rules)
      | _ \<Rightarrow> Inl TypeAssertionPanic)"

text \<open>
  cleanPolicy mutates \<^verbatim>\<open>policyMap\<close> in place and returns nothing; the model returns the
  map as it is after the call, or the panic. The assertion
  \<^verbatim>\<open>policyMap["rules"].([]interface{})\<close> on line 198 is the single-value form: it panics
  unless the value under \<^verbatim>\<open>rules\<close> is a \<^verbatim>\<open>[]interface{}\<close>.
\<close>

definition cleanPolicy :: "(place \<Rightarrow> obj \<Rightarrow> string list) \<Rightarrow> obj \<Rightarrow> error + obj" where
  "cleanPolicy ord policyMap =
     (let cleaned = fold fmdrop policy_metadata policyMap
      in case fmlookup cleaned ''rules'' of
           Some (JArr rules) \<Rightarrow>
             (case cleanRules ord 0 rules of
                Inl e \<Rightarrow> Inl e
              | Inr ruleMaps \<Rightarrow> Inr (fmupd ''rules'' (JMaps ruleMaps) cleaned))
         | _ \<Rightarrow> Inl TypeAssertionPanic)"

subsection \<open>The rebuilt map the loop is compared with\<close>

text \<open>
  The design notes of the specification name the alternative to mutating the map while ranging
  over it: "building a new mapping from the old one (key \<open>\<rightarrow>\<close> transformed key, value \<open>\<rightarrow>\<close>
  transformed value)". \<open>standardized_copy\<close> is that reference, written from those words: a
  fresh map that receives every entry of the old one once, transformed.
\<close>

definition standardized_copy :: "obj \<Rightarrow> obj" where
  "standardized_copy m =
     fmap_of_list
       (map (\<lambda>(k, v). (Replace_hyphens k, standardize_value v)) (sorted_list_of_fmap m))"

subsection \<open>Decoded trees, and the match objects of a normalized tree\<close>

text \<open>
  \<open>decoded v\<close>: the value is one \<^verbatim>\<open>json.Unmarshal\<close> can have produced, that is, no
  \<^verbatim>\<open>[]map[string]interface{}\<close> occurs in it. The policy trees that reach cleanPolicy come
  from \<^verbatim>\<open>json.Unmarshal\<close> (directly in cleanPolicyForTerrafomState, through the API client
  in ResourcePolicyRead).
\<close>

function decoded :: "jv \<Rightarrow> bool" where
  "decoded JNull = True"
| "decoded (JBool b) = True"
| "decoded (JNum n) = True"
| "decoded (JStr s) = True"
| "decoded (JArr xs) = (\<forall>x \<in> set xs. decoded x)"
| "decoded (JObj m) = (\<forall>v \<in> fmran' m. decoded v)"
| "decoded (JMaps ms) = False"
  by pat_completeness auto
termination
  by (relation "measure size")
    (auto simp del: size_fmap_def dest: size_fmran' simp: less_Suc_eq_le size_list_estimation')

text \<open>
  The objects held under a key of a map, whatever the dynamic type of the slice that holds
  them: the entries of a cleaned \<^verbatim>\<open>[]map[string]interface{}\<close>, and the objects among the
  entries of a \<^verbatim>\<open>[]interface{}\<close> that is still there. So an array that a normalizer has
  left as it was counts with its objects.
\<close>

definition objects_of :: "jv \<Rightarrow> obj list" where
  "objects_of v =
     (case v of
        JMaps ms \<Rightarrow> ms
      | JArr xs \<Rightarrow> concat (map (\<lambda>x. case x of JObj m \<Rightarrow> [m] | _ \<Rightarrow> []) xs)
      | _ \<Rightarrow> [])"

definition objects_under :: "string \<Rightarrow> obj \<Rightarrow> obj list" where
  "objects_under k m = (case fmlookup m k of Some v \<Rightarrow> objects_of v | None \<Rightarrow> [])"

text \<open>
  The match objects of a tree, at any depth: the objects \<open>ms\<close> under the \<^verbatim>\<open>matches\<close> of a
  rule, and the objects under the \<^verbatim>\<open>matches\<close> of any of them.
\<close>

inductive_set matches_within :: "obj list \<Rightarrow> obj set" for ms :: "obj list" where
  top: "m \<in> set ms \<Longrightarrow> m \<in> matches_within ms"
| child: "m \<in> matches_within ms \<Longrightarrow> c \<in> set (objects_under ''matches'' m)
    \<Longrightarrow> c \<in> matches_within ms"

text \<open>
  A match object carries no \<^verbatim>\<open>ordinal\<close>, and neither does any feature object under its
  \<^verbatim>\<open>features\<close>.
\<close>

definition ordinal_free :: "obj \<Rightarrow> bool" where
  "ordinal_free m \<longleftrightarrow>
     ''ordinal'' \<notin> fmdom' m
     \<and> (\<forall>f \<in> set (objects_under ''features'' m). ''ordinal'' \<notin> fmdom' f)"

text \<open>
  The value \<^verbatim>\<open>json.Unmarshal\<close> reads back from the text \<^verbatim>\<open>json.Marshal\<close> writes for a
  value. This is how a normalized tree reaches the normalizer again: ResourcePolicyRead and
  cleanPolicyForTerrafomState marshal the cleaned map to the stored string, and
  cleanPolicyForTerrafomState unmarshals the string it is given. Both functions belong to Go's
  library; what matters here is the dynamic type: a \<^verbatim>\<open>[]map[string]interface{}\<close> is written
  as a JSON array of objects, which is read back as a \<^verbatim>\<open>[]interface{}\<close> of
  \<^verbatim>\<open>map[string]interface{}\<close>; the other values are read back as they were.
\<close>

primrec json_roundtrip :: "jv \<Rightarrow> jv" where
  "json_roundtrip JNull = JNull"
| "json_roundtrip (JBool b) = JBool b"
| "json_roundtrip (JNum n) = JNum n"
| "json_roundtrip (JStr s) = JStr s"
| "json_roundtrip (JArr xs) = JArr (map json_roundtrip xs)"
| "json_roundtrip (JObj m) = JObj (fmmap json_roundtrip m)"
| "json_roundtrip (JMaps ms) = JArr (map JObj (map (fmmap json_roundtrip) ms))"

text \<open>
  What cleanPolicy makes of a rule object: the keys it deletes there are gone and no other key
  is, the other entries but \<^verbatim>\<open>matches\<close> are as they were, there are as many match objects
  under \<^verbatim>\<open>matches\<close> as before, and none of the match objects at any depth has an
  \<^verbatim>\<open>ordinal\<close> left.
\<close>

definition rule_cleaned :: "jv \<Rightarrow> obj \<Rightarrow> bool" where
  "rule_cleaned rule r \<longleftrightarrow>
     (\<exists>ruleMap. rule = JObj ruleMap
        \<and> fmdom' r = fmdom' ruleMap - set rule_metadata
        \<and> (\<forall>k. k \<notin> set rule_metadata \<and> k \<noteq> ''matches'' \<longrightarrow> fmlookup r k = fmlookup ruleMap k)
        \<and> length (objects_under ''matches'' r) = length (objects_under ''matches'' ruleMap)
        \<and> (\<forall>m \<in> matches_within (objects_under ''matches'' r). ordinal_free m))"

subsection \<open>The shape of a normalized tree\<close>

text \<open>
  What one run of the normalizer leaves, level by level; the proofs go through these. A value
  is settled when standardizing it again changes nothing. A normalized feature has no
  \<^verbatim>\<open>ordinal\<close>, no hyphen in a key and settled values only. A normalized match is the same,
  but for its cleaned \<^verbatim>\<open>matches\<close> and \<^verbatim>\<open>features\<close> slices, which are not empty (an
  empty array has been joined to the empty string before) and hold normalized entries. A
  normalized rule has lost its metadata keys and holds normalized matches.
\<close>

definition settled :: "jv \<Rightarrow> bool" where
  "settled v \<longleftrightarrow> decoded v \<and> standardize_value v = v"

definition nf_feature :: "obj \<Rightarrow> bool" where
  "nf_feature f \<longleftrightarrow>
     ''ordinal'' \<notin> fmdom' f
     \<and> (\<forall>k \<in> fmdom' f. Replace_hyphens k = k)
     \<and> (\<forall>v \<in> fmran' f. settled v)"

inductive nf_match :: "obj \<Rightarrow> bool" where
  nf_matchI: "''ordinal'' \<notin> fmdom' m \<Longrightarrow>
    \<forall>k \<in> fmdom' m. Replace_hyphens k = k \<Longrightarrow>
    \<forall>k v. fmlookup m k = Some v \<longrightarrow>
        (k = ''matches'' \<and> (\<exists>cs. v = JMaps cs \<and> cs \<noteq> [] \<and> (\<forall>c \<in> set cs. nf_match c)))
      \<or> (k = ''features'' \<and> (\<exists>fs. v = JMaps fs \<and> fs \<noteq> [] \<and> (\<forall>f \<in> set fs. nf_feature f)))
      \<or> (settled v \<and> (k = ''matches'' \<or> k = ''features'' \<longrightarrow> (\<forall>xs. v \<noteq> JArr xs))) \<Longrightarrow>
    nf_match m"

definition nf_rule :: "obj \<Rightarrow> bool" where
  "nf_rule r \<longleftrightarrow>
     (\<forall>k \<in> set rule_metadata. k \<notin> fmdom' r)
     \<and> (\<forall>k v. fmlookup r k = Some v \<longrightarrow>
           (k = ''matches'' \<and> (\<exists>ms. v = JMaps ms \<and> (\<forall>m \<in> set ms. nf_match m)))
         \<or> (decoded v \<and> (k = ''matches'' \<longrightarrow> (\<forall>xs. v \<noteq> JArr xs))))"

subsection \<open>A policy as the API returns it, and its normal form\<close>

definition ex_policy :: obj where
  "ex_policy = fmap_of_list
     [(''id'', JStr ''7''), (''@id'', JStr ''/rules-engine/v1.1/policies/7''),
      (''@type'', JStr ''Policy''), (''policy_type'', JStr ''customer''),
      (''state'', JStr ''locked''), (''history'', JArr []),
      (''created_at'', JStr ''2022-01-01T00:00:00Z''),
      (''updated_at'', JStr ''2022-01-02T00:00:00Z''),
      (''name'', JStr ''p''), (''platform'', JStr ''http_large''),
      (''rules'', JArr [JObj (fmap_of_list
         [(''id'', JStr ''11''), (''@id'', JStr ''/rules-engine/v1.1/rules/11''),
          (''@type'', JStr ''Rule''), (''ordinal'', JNum 1),
          (''created_at'', JStr ''2022-01-01T00:00:00Z''),
          (''updated_at'', JStr ''2022-01-02T00:00:00Z''), (''name'', JStr ''r''),
          (''matches'', JArr [JObj (fmap_of_list
             [(''ordinal'', JNum 1), (''type'', JStr ''match.always''),
              (''matches'', JArr [JObj (fmap_of_list
                 [(''ordinal'', JNum 1), (''type'', JStr ''match.request.request-method.literal''),
                  (''value-list'', JArr [JStr ''GET'', JStr ''HEAD''])])]),
              (''features'', JArr [JObj (fmap_of_list
                 [(''ordinal'', JNum 1), (''type'', JStr ''feature.comment''),
                  (''value'', JStr ''hello'')])])])])])])]"

definition ex_cleaned :: obj where
  "ex_cleaned = fmap_of_list
     [(''name'', JStr ''p''), (''platform'', JStr ''http_large''),
      (''rules'', JMaps [fmap_of_list
         [(''name'', JStr ''r''),
          (''matches'', JMaps [fmap_of_list
             [(''type'', JStr ''match.always''),
              (''matches'', JMaps [fmap_of_list
                 [(''type'', JStr ''match.request.request-method.literal''),
                  (''value_list'', JStr ''GET HEAD'')]]),
              (''features'', JMaps [fmap_of_list
                 [(''type'', JStr ''feature.comment''),
                  (''value'', JStr ''hello'')]])]])]])]"

section \<open>The rules engine policy resource\<close>

text \<open>
  \<^verbatim>\<open>fmt.Sprintf(emptyPolicyFormat, a, b, c)\<close>: the constant of line 23 with its three
  \<^verbatim>\<open>%s\<close> verbs replaced by the arguments, which are pasted as they are.
\<close>

definition emptyPolicyFormat :: "string \<Rightarrow> string \<Rightarrow> string \<Rightarrow> string" where
  \<open>emptyPolicyFormat a b c =
     ''{"@type":"policy-create","name":"Terraform Placeholder - '' @ a
     @ ''","platform":"'' @ b
     @ ''","rules":[{"@type":"rule-create","description":"Placeholder rule created by ''
     @ ''the Edgecast Terraform Provider","matches":[{"features":[{"type":"feature.comment",''
     @ ''"value":"Empty policy created on '' @ c
     @ ''"}],"ordinal":1,"type":"match.always"}],"name":"Placeholder Rule"}],"state":"locked"}''\<close>

text \<open>\<^verbatim>\<open>api.AddDeployRequest\<close>, as getDeployRequestData fills it.\<close>

record AddDeployRequest =
  Message :: string
  PolicyID :: int
  Environment :: string

text \<open>
  The calls the handlers make on the API client, with their arguments in the order of the
  source: \<^verbatim>\<open>GetPolicy\<close> (lines 301 to 305), \<^verbatim>\<open>AddPolicy\<close> (line 323) and
  \<^verbatim>\<open>DeployPolicy\<close> (lines 344 to 348). The handlers call no other method of the client.
\<close>

datatype api_call =
    GetPolicyCall string string string int
  | AddPolicyCall string string string string
  | DeployPolicyCall AddDeployRequest string string string

text \<open>
  What a handler reads and writes: the resource data \<^verbatim>\<open>d\<close> (its identifier and attributes),
  the account number of the client configuration, which getPolicy overwrites, and the calls
  made on the API so far.
\<close>

record policy_resource =
  Id :: string
  account_number :: string
  portaltypeid :: string
  customeruserid :: string
  deploy_to :: string
  deploy_request_id :: string
  policy :: string
  config_AccountNumber :: string
  calls :: "api_call list"

text \<open>
  What \<^verbatim>\<open>json.Unmarshal(text, &policyMap)\<close> does to the empty map made just before: it
  returns an error and leaves the map empty (a syntax error is found before anything is stored,
  and a text that is not an object stores nothing), or fills the map from a JSON object, or,
  for the text \<^verbatim>\<open>null\<close>, sets the map to nil.
\<close>

datatype unmarshalled = UnmarshalError string | UnmarshalledObject obj | UnmarshalledNull

text \<open>
  What the handlers take from outside: \<^verbatim>\<open>strconv.Atoi\<close>, \<^verbatim>\<open>json.Unmarshal\<close> and
  \<^verbatim>\<open>json.Marshal\<close> of Go's library, the three methods of the API client (an error message
  or the result), the formatted \<^verbatim>\<open>time.Now()\<close>, and the order of \<^verbatim>\<open>range\<close> over the map at each place.
\<close>

record policy_env =
  Atoi :: "string \<Rightarrow> string + int"
  json_Unmarshal :: "string \<Rightarrow> unmarshalled"
  json_Marshal :: "obj \<Rightarrow> string + string"
  GetPolicy :: "string \<Rightarrow> string \<Rightarrow> string \<Rightarrow> int \<Rightarrow> string + obj"
  AddPolicy :: "string \<Rightarrow> string \<Rightarrow> string \<Rightarrow> string \<Rightarrow> string + string"
  DeployPolicy :: "AddDeployRequest \<Rightarrow> string \<Rightarrow> string \<Rightarrow> string \<Rightarrow> string + string"
  time_Now :: string
  range_of :: "place \<Rightarrow> obj \<Rightarrow> string list"

definition getDeployRequestData :: "policy_resource \<Rightarrow> int \<Rightarrow> AddDeployRequest" where
  "getDeployRequestData d policyID =
     \<lparr>Message = ''Auto-submitted policy'', PolicyID = policyID, Environment = deploy_to d\<rparr>"

text \<open>getPolicy (lines 282 to 306).\<close>

definition getPolicy :: "policy_env \<Rightarrow> policy_resource \<Rightarrow> (string + obj) \<times> policy_resource" where
  "getPolicy env d =
     (let d1 = d\<lparr>config_AccountNumber := account_number d\<rparr>
      in case Atoi env (Id d1) of
           Inl err \<Rightarrow> (Inl (''error parsing Policy ID from state file: '' @ err), d1)
         | Inr policyID \<Rightarrow>
             (GetPolicy env (config_AccountNumber d1) (customeruserid d1) (portaltypeid d1)
                policyID,
              d1\<lparr>calls := calls d1 @ [GetPolicyCall (config_AccountNumber d1) (customeruserid d1)
                                        (portaltypeid d1) policyID]\<rparr>))"

text \<open>addPolicy (lines 308 to 369); the result is the error, \<open>None\<close> for nil.\<close>

definition addPolicy ::
  "policy_env \<Rightarrow> string \<Rightarrow> bool \<Rightarrow> policy_resource \<Rightarrow> string option \<times> policy_resource" where
  "addPolicy env policyJSON isEmptyPolicy d =
     (let customerID = account_number d;
          customerUserID = customeruserid d;
          portalTypeID = portaltypeid d;
          d1 = d\<lparr>calls := calls d @ [AddPolicyCall policyJSON customerID portalTypeID
                                      customerUserID]\<rparr>
      in case AddPolicy env policyJSON customerID portalTypeID customerUserID of
           Inl err \<Rightarrow> (Some (''addPolicy: '' @ err), d1)
         | Inr responseID \<Rightarrow>
             (case Atoi env responseID of
                Inl err \<Rightarrow> (Some (''addPolicy: parsing policy ID: '' @ err), d1)
              | Inr policyID \<Rightarrow>
                  (let d2 = (if \<not> isEmptyPolicy
                             then d1\<lparr>Id := responseID, policy := policyJSON\<rparr> else d1);
                       deployRequest = getDeployRequestData d2 policyID;
                       d3 = d2\<lparr>calls := calls d2 @ [DeployPolicyCall deployRequest customerID
                                                    portalTypeID customerUserID]\<rparr>
                   in case DeployPolicy env deployRequest customerID portalTypeID customerUserID of
                        Inl deployErr \<Rightarrow> (Some (''addPolicy: '' @ deployErr), d3)
                      | Inr deployID \<Rightarrow>
                          (None,
                           if isEmptyPolicy then d3\<lparr>Id := []\<rparr>
                           else d3\<lparr>deploy_request_id := deployID\<rparr>))))"

text \<open>
  The handlers return the diagnostics (\<open>Inr None\<close>: none, \<open>Inr (Some e)\<close>: the error \<open>e\<close>) or
  panic (\<open>Inl\<close>), and leave the resource as returned.
\<close>

definition ResourcePolicyRead ::
  "policy_env \<Rightarrow> policy_resource \<Rightarrow> (error + string option) \<times> policy_resource" where
  "ResourcePolicyRead env d =
     (case getPolicy env d of
        (Inl err, d1) \<Rightarrow> (Inr (Some err), d1\<lparr>Id := []\<rparr>)
      | (Inr policyMap, d1) \<Rightarrow>
          (case fmlookup policyMap ''id'' of
             Some (JStr policyId) \<Rightarrow>
               (let d2 = d1\<lparr>Id := policyId\<rparr>
                in case cleanPolicy (range_of env) policyMap of
                     Inl e \<Rightarrow> (Inl e, d2)
                   | Inr cleaned \<Rightarrow>
                       (case json_Marshal env cleaned of
                          Inl err \<Rightarrow>
                            (Inr (Some (''error marshaling policy to json : '' @ err)),
                             d2\<lparr>Id := []\<rparr>)
                        | Inr policyAsString \<Rightarrow>
                            (Inr None, d2\<lparr>policy := policyAsString\<rparr>)))
           | _ \<Rightarrow> (Inl TypeAssertionPanic, d1)))"

text \<open>
  ResourcePolicyCreate (lines 71 to 98). The error of \<^verbatim>\<open>json.Unmarshal\<close> on line 81 is not
  looked at; storing into the nil map that the text \<^verbatim>\<open>null\<close> leaves panics.
\<close>

definition ResourcePolicyCreate ::
  "policy_env \<Rightarrow> policy_resource \<Rightarrow> (error + string option) \<times> policy_resource" where
  "ResourcePolicyCreate env d =
     (case (case json_Unmarshal env (policy d) of
              UnmarshalError err \<Rightarrow> Some fmempty
            | UnmarshalledObject m \<Rightarrow> Some m
            | UnmarshalledNull \<Rightarrow> None) of
        None \<Rightarrow> (Inl NilMapPanic, d)
      | Some policyMap \<Rightarrow>
          (case json_Marshal env (fmupd ''state'' (JStr ''locked'') policyMap) of
             Inl err \<Rightarrow> (Inr (Some err), d)
           | Inr policyBytes \<Rightarrow>
               (case addPolicy env policyBytes False d of
                  (Some err, d1) \<Rightarrow> (Inr (Some err), d1)
                | (None, d1) \<Rightarrow> ResourcePolicyRead env d1)))"

definition ResourcePolicyDelete ::
  "policy_env \<Rightarrow> policy_resource \<Rightarrow> (error + string option) \<times> policy_resource" where
  "ResourcePolicyDelete env d =
     (case getPolicy env d of
        (Inl err, d1) \<Rightarrow> (Inr (Some err), d1)
      | (Inr policyMap, d1) \<Rightarrow>
          (case fmlookup policyMap ''platform'' of
             Some (JStr platform) \<Rightarrow>
               (let timestamp = time_Now env;
                    emptyPolicyJSON = emptyPolicyFormat timestamp platform timestamp
                in case addPolicy env emptyPolicyJSON True d1 of
                     (Some err, d2) \<Rightarrow> (Inr (Some err), d2)
                   | (None, d2) \<Rightarrow> (Inr None, d2))
           | _ \<Rightarrow> (Inl TypeAssertionPanic, d1)))"


text \<open>
  cleanPolicyForTerrafomState (lines 371 to 386), the state function of the \<^verbatim>\<open>policy\<close>
  attribute. cleanPolicy does to a nil map what it does to an empty one.
\<close>

definition cleanPolicyForTerrafomState :: "policy_env \<Rightarrow> string \<Rightarrow> error + string" where
  "cleanPolicyForTerrafomState env val =
     (if length val = 0 then Inr val
      else case cleanPolicy (range_of env)
                  (case json_Unmarshal env val of
                     UnmarshalledObject m \<Rightarrow> m
                   | _ \<Rightarrow> fmempty) of
             Inl e \<Rightarrow> Inl e
           | Inr cleaned \<Rightarrow>
               (case json_Marshal env cleaned of
                  Inl err \<Rightarrow> Inl (ErrorPanic (''cleanPolicyForTerrafomState: '' @ err))
                | Inr jsonBytes \<Rightarrow> Inr jsonBytes))"

subsection \<open>An account and its API, for the examples\<close>

text \<open>\<open>ex_Marshal\<close> knows the two texts the examples need.\<close>

definition ex_Marshal :: "obj \<Rightarrow> string + string" where
  \<open>ex_Marshal m =
     (if m = fmap_of_list [(''state'', JStr ''locked'')] then Inr ''{"state":"locked"}''
      else if m = fmap_of_list [(''platform'', JStr ''adn''), (''rules'', JMaps [])]
      then Inr ''{"platform":"adn","rules":[]}''
      else Inl ''json: unsupported value'')\<close>

definition ex_policy_env :: policy_env where
  "ex_policy_env =
     \<lparr>Atoi = (\<lambda>s. if s = ''101'' then Inr 101 else if s = ''7'' then Inr 7
                  else Inl ''invalid syntax''),
      json_Unmarshal = (\<lambda>s. UnmarshalError ''invalid character''),
      json_Marshal = ex_Marshal,
      GetPolicy = (\<lambda>account user portal policyID.
         Inr (fmap_of_list [(''id'', JStr ''101''), (''platform'', JStr ''adn''),
                            (''rules'', JArr [])])),
      AddPolicy = (\<lambda>policyJSON account portal user. Inr ''101''),
      DeployPolicy = (\<lambda>request account portal user. Inr ''501''),
      time_Now = ''2022-05-01T10:00:00Z'',
      range_of = key_order\<rparr>"

definition ex_resource :: "string \<Rightarrow> string \<Rightarrow> policy_resource" where
  "ex_resource policyId policyJSON =
     \<lparr>Id = policyId, account_number = ''ACC'', portaltypeid = ''1'', customeruserid = ''U'',
      deploy_to = ''staging'', deploy_request_id = [], policy = policyJSON,
      config_AccountNumber = [], calls = []\<rparr>"

section \<open>The DNS TXT token data source\<close>

subsection \<open>Responses of the certificate API\<close>

text \<open>
  Modelled from the spec: the types of the SDK's \<^verbatim>\<open>models\<close> and \<^verbatim>\<open>certificate\<close>
  packages are not among the source files. The spec has the certificate payload carry the
  "validation type, workflow error message, and per-domain DCV metadata (each domain carries an
  optional token object with a token string)"; the fields are named as the source reads them.
  \<open>DcvToken\<close> is the pointer the source compares with nil.

  The source holds these values through pointers: the responses of the two calls are a
  \<^verbatim>\<open>*certificate.CertificateGetOK\<close> and a
  \<^verbatim>\<open>*certificate.CertificateGetCertificateStatusOK\<close>, and the metadata is a
  \<^verbatim>\<open>[]*models.DomainDcvFull\<close>. A pointer is an option, nil is \<open>None\<close>, and reading a
  field through a nil pointer panics.
\<close>

record dcv_token =
  Token :: string

record domain_dcv_full =
  DcvToken :: "dcv_token option"

record certificate =
  ValidationType :: string
  WorkflowErrorMessage :: string

record certificate_status =
  Status :: string

text \<open>
  Modelled from the spec: the SDK constant the validation type is compared with; the source's
  own error message names it ("certificate must have validation type DV"). Nothing below
  depends on its spelling.
\<close>

definition CdnProvidedCertificateValidationTypeDV :: string where
  "CdnProvidedCertificateValidationTypeDV = ''DV''"

subsection \<open>CheckForRetry\<close>

text \<open>
  \<^verbatim>\<open>metadata[0]\<close> panics on an empty slice, and \<^verbatim>\<open>statusresp.Status\<close>,
  \<^verbatim>\<open>metadata[0].DcvToken\<close> and \<^verbatim>\<open>.Token\<close> panic on a nil pointer; all are written
  out, and the operands of \<^verbatim>\<open>||\<close> are evaluated left to right, the later ones only when
  the earlier ones are false.
\<close>

definition index0 :: "'a list \<Rightarrow> error + 'a" where
  "index0 xs = (case xs of [] \<Rightarrow> Inl IndexPanic | x # _ \<Rightarrow> Inr x)"

definition deref :: "'a option \<Rightarrow> error + 'a" where
  "deref p = (case p of None \<Rightarrow> Inl NilPointerPanic | Some x \<Rightarrow> Inr x)"

text \<open>
  \<^verbatim>\<open>strings.ToLower\<close> belongs to Go's library and works on Unicode; the model takes it as
  the parameter \<open>ToLower\<close>.
\<close>

definition CheckForRetry ::
  "(string \<Rightarrow> string) \<Rightarrow> domain_dcv_full option list \<Rightarrow> certificate_status option
     \<Rightarrow> error + bool" where
  "CheckForRetry ToLower metadata statusresp =
     (case deref statusresp of
        Inl e \<Rightarrow> Inl e
      | Inr status \<Rightarrow>
          if ToLower (Status status) = ''processing'' then Inr True
          else if length metadata = 0 then Inr True
          else case index0 metadata of
                 Inl e \<Rightarrow> Inl e
               | Inr p0 \<Rightarrow>
                   (case deref p0 of
                      Inl e \<Rightarrow> Inl e
                    | Inr m0 \<Rightarrow>
                        if DcvToken m0 = None then Inr True
                        else case deref (DcvToken m0) of
                               Inl e \<Rightarrow> Inl e
                             | Inr t \<Rightarrow>
                                 if length (Token t) = 0 then Inr True else Inr False))"

subsection \<open>The function handed to the retry loop\<close>

text \<open>\<^verbatim>\<open>*resource.RetryError\<close>: nil is \<open>None\<close>.\<close>

datatype RetryError = RetryableError string | NonRetryableError string

text \<open>
  What the service answers to one round of queries: the two API calls (an error, or the
  pointer to the response) and the result of \<^verbatim>\<open>GetDomainMetadata\<close>, a function of the
  package that is not among the source files.
\<close>

record responses =
  CertificateGet :: "string + certificate option"
  CertificateGetCertificateStatus :: "string + certificate_status option"
  GetDomainMetadata :: "domain_dcv_full option list"

text \<open>The two attributes the read sets: \<^verbatim>\<open>d.Set("value", ...)\<close> and \<^verbatim>\<open>d.SetId(...)\<close>.\<close>

record token_data =
  d_value :: "string option"
  d_Id :: string

text \<open>
  The closure of lines 98 to 154, for one round: \<open>retry\<close> is \<^verbatim>\<open>wait_until_available\<close>,
  \<open>now\<close> what \<^verbatim>\<open>helper.GetUnixTimeStamp()\<close> returns.
\<close>

definition read_attempt ::
  "(string \<Rightarrow> string) \<Rightarrow> bool \<Rightarrow> string \<Rightarrow> responses \<Rightarrow> token_data
     \<Rightarrow> error + (RetryError option \<times> token_data)" where
  "read_attempt ToLower retry now api d =
     (case CertificateGet api of
        Inl err \<Rightarrow>
          Inr (Some (NonRetryableError (''error while retrieving certificate details: '' @ err)), d)
      | Inr resp \<Rightarrow>
          (case CertificateGetCertificateStatus api of
             Inl err \<Rightarrow>
               Inr (Some (NonRetryableError
                      (''error while retrieving certificate details: '' @ err)), d)
           | Inr statusresp \<Rightarrow>
               (case deref resp of
                  Inl e \<Rightarrow> Inl e
                | Inr cert \<Rightarrow>
                    if ValidationType cert \<noteq> CdnProvidedCertificateValidationTypeDV
                    then Inr (Some (NonRetryableError
                                  ''certificate must have validation type DV''), d)
                    else if length (WorkflowErrorMessage cert) > 0
                    then Inr (Some (NonRetryableError
                                  (''error in workflow: '' @ WorkflowErrorMessage cert)), d)
                    else
                      (let metadata = GetDomainMetadata api
                       in case CheckForRetry ToLower metadata statusresp of
                            Inl e \<Rightarrow> Inl e
                          | Inr needsRetry \<Rightarrow>
                              if needsRetry
                              then (if retry
                                    then Inr (Some (RetryableError ''token not available''), d)
                                    else Inr (None, d))
                              else (case index0 metadata of
                                      Inl e \<Rightarrow> Inl e
                                    | Inr p0 \<Rightarrow>
                                        (case deref p0 of
                                           Inl e \<Rightarrow> Inl e
                                         | Inr m0 \<Rightarrow>
                                             (case deref (DcvToken m0) of
                                                Inl e \<Rightarrow> Inl e
                                              | Inr t \<Rightarrow>
                                                  Inr (None,
                                                    d\<lparr>d_value := Some (Token t),
                                                      d_Id := now\<rparr>))))))))"

text \<open>
  Modelled from the spec: \<^verbatim>\<open>resource.RetryContext\<close> belongs to the plugin SDK. The spec
  describes it as "a generic bounded-retry utility: given a timeout and a unit of work returning
  {retry, fatal-error, success}, drives the Querying/Retrying loop", which attempts at least one
  query and, when the deadline passes while retrying, returns the last retry condition as the
  error. The deadline is the number \<open>retries\<close> of further rounds it leaves room for; \<open>i\<close>
  counts the rounds made so far, and the result carries the number of rounds made.
\<close>

fun RetryContext ::
  "nat \<Rightarrow> (nat \<Rightarrow> 's \<Rightarrow> error + (RetryError option \<times> 's)) \<Rightarrow> nat \<Rightarrow> 's
     \<Rightarrow> error + (string option \<times> 's \<times> nat)" where
  "RetryContext retries f i s =
     (case f i s of
        Inl e \<Rightarrow> Inl e
      | Inr (None, s') \<Rightarrow> Inr (None, s', Suc i)
      | Inr (Some (NonRetryableError e), s') \<Rightarrow> Inr (Some e, s', Suc i)
      | Inr (Some (RetryableError e), s') \<Rightarrow>
          (case retries of
             0 \<Rightarrow> Inr (Some e, s', Suc i)
           | Suc n \<Rightarrow> RetryContext n f (Suc i) s'))"

subsection \<open>DataSourceDNSTXTTokenRead\<close>

text \<open>The attributes the read takes from the configuration.\<close>

record token_config =
  certificate_id :: string
  wait_until_available :: bool
  wait_timeout :: string

text \<open>
  What the read takes from outside: Go's \<^verbatim>\<open>time.ParseDuration\<close>, the type assertion on
  the provider configuration, \<^verbatim>\<open>buildCPSService\<close> and \<^verbatim>\<open>helper.ParseInt64\<close> (each an
  error message or a result), the number of retries the timeout leaves room for, and the
  answers of the service to round \<open>i\<close> of the queries for a certificate.
\<close>

record token_env =
  ParseDuration :: "string \<Rightarrow> string + nat"
  ProviderConfig_ok :: bool
  buildCPSService :: "string option"
  ParseInt64 :: "string \<Rightarrow> string + int"
  retries_within :: "nat \<Rightarrow> nat"
  api :: "int \<Rightarrow> nat \<Rightarrow> responses"
  strings_ToLower :: "string \<Rightarrow> string"
  GetUnixTimeStamp :: string

text \<open>
  The result is the diagnostics (\<open>None\<close>: none, \<open>Some e\<close>: the error \<open>e\<close>), the resource data
  and the number of rounds of queries made.
\<close>

definition DataSourceDNSTXTTokenRead ::
  "token_env \<Rightarrow> token_config \<Rightarrow> token_data \<Rightarrow> error + (string option \<times> token_data \<times> nat)" where
  "DataSourceDNSTXTTokenRead env cfg d =
     (case ParseDuration env (wait_timeout cfg) of
        Inl err \<Rightarrow> Inr (Some (''invalid wait_timeout: '' @ err), d, 0)
      | Inr timeout \<Rightarrow>
          if \<not> ProviderConfig_ok env then Inr (Some ''failed to load configuration'', d, 0)
          else case buildCPSService env of
                 Some err \<Rightarrow> Inr (Some (''failed to build CPS Service: '' @ err), d, 0)
               | None \<Rightarrow>
                   (case ParseInt64 env (certificate_id cfg) of
                      Inl err \<Rightarrow> Inr (Some (''failed to parse certificate ID: '' @ err), d, 0)
                    | Inr certID \<Rightarrow>
                        RetryContext (retries_within env timeout)
                          (\<lambda>i. read_attempt (strings_ToLower env) (wait_until_available cfg)
                                 (GetUnixTimeStamp env) (api env certID i))
                          0 d))"

text \<open>The steps before the retry loop have all succeeded.\<close>

definition poller_started :: "token_env \<Rightarrow> token_config \<Rightarrow> nat \<Rightarrow> int \<Rightarrow> bool" where
  "poller_started env cfg timeout certID \<longleftrightarrow>
     ParseDuration env (wait_timeout cfg) = Inr timeout
     \<and> ProviderConfig_ok env
     \<and> buildCPSService env = None
     \<and> ParseInt64 env (certificate_id cfg) = Inr certID"

subsection \<open>A certificate with its token, for the examples\<close>

definition ascii_ToLower :: "string \<Rightarrow> string" where
  "ascii_ToLower s =
     map (\<lambda>c. if CHR ''A'' \<le> c \<and> c \<le> CHR ''Z'' then char_of (of_char c + (32 :: nat)) else c) s"

definition ex_env :: "(nat \<Rightarrow> responses) \<Rightarrow> token_env" where
  "ex_env world =
     \<lparr>ParseDuration = (\<lambda>s. if s = ''20m'' then Inr 1200 else Inl ''time: invalid duration''),
      ProviderConfig_ok = True,
      buildCPSService = None,
      ParseInt64 = (\<lambda>s. if s = ''42'' then Inr 42 else Inl ''invalid syntax''),
      retries_within = (\<lambda>timeout. 3),
      api = (\<lambda>certID. world),
      strings_ToLower = ascii_ToLower,
      GetUnixTimeStamp = ''1700000000''\<rparr>"

definition ex_cfg :: "bool \<Rightarrow> token_config" where
  "ex_cfg retry = \<lparr>certificate_id = ''42'', wait_until_available = retry, wait_timeout = ''20m''\<rparr>"

definition ex_data :: token_data where
  "ex_data = \<lparr>d_value = None, d_Id = []\<rparr>"

definition ex_responses ::
  "string \<Rightarrow> string \<Rightarrow> domain_dcv_full option list \<Rightarrow> responses" where
  "ex_responses vt status md =
     \<lparr>CertificateGet = Inr (Some \<lparr>ValidationType = vt, WorkflowErrorMessage = []\<rparr>),
      CertificateGetCertificateStatus = Inr (Some \<lparr>Status = status\<rparr>),
      GetDomainMetadata = md\<rparr>"

definition ex_token :: "domain_dcv_full option list" where
  "ex_token = [Some \<lparr>DcvToken = Some \<lparr>Token = ''XYZ''\<rparr>\<rparr>]"

section \<open>Properties of standardizeMatchFeature\<close>

lemma Replace_hyphens_idem: "Replace_hyphens (Replace_hyphens k) = Replace_hyphens k"
  by (simp add: Replace_hyphens_def)

lemma Replace_hyphens_no_hyphen: "CHR ''-'' \<notin> set (Replace_hyphens k)"
  by (auto simp: Replace_hyphens_def)

lemma Replace_hyphens_id: "CHR ''-'' \<notin> set k \<Longrightarrow> Replace_hyphens k = k"
  by (induction k) (auto simp: Replace_hyphens_def)

lemma standardize_value_idem: "standardize_value (standardize_value v) = standardize_value v"
  by (auto simp: standardize_value_def split: jv.splits option.splits)

lemma fmdom'_smf_body:
  "fmdom' (smf_body k m) =
     (if k \<in> fmdom' m then insert (Replace_hyphens k) (fmdom' m - {k}) else fmdom' m)"
  by (cases "fmlookup m k") (auto simp: smf_body_def fmdom'_notI fmdom'I)

lemma fold_snoc: "fold f (xs @ [x]) s = f x (fold f xs s)"
  by simp

lemma fmdom'_fold_smf_body:
  "fmdom' (fold smf_body ks m0) =
     (fmdom' m0 - set ks) \<union> Replace_hyphens ` (fmdom' m0 \<inter> set ks)"
proof (induction ks rule: rev_induct)
  case Nil
  show ?case by simp
next
  case (snoc k ks)
  show ?case
    unfolding fold_snoc fmdom'_smf_body snoc.IH
    by (auto simp: Replace_hyphens_idem image_iff)
qed

lemma fmlookup_smf_body:
  "fmlookup (smf_body k m) k' =
     (case fmlookup m k of
        None \<Rightarrow> fmlookup m k'
      | Some v \<Rightarrow>
          if k' = Replace_hyphens k then Some (standardize_value v)
          else if k' = k then None else fmlookup m k')"
  by (auto simp: smf_body_def split: option.splits)

lemma fmlookup_fold_smf_body:
  "fmlookup (fold smf_body ks m0) k' = Some w \<Longrightarrow>
     (\<exists>k v. fmlookup m0 k = Some v \<and> k' = Replace_hyphens k \<and> w = standardize_value v)
     \<or> (k' \<notin> set ks \<and> fmlookup m0 k' = Some w)"
proof (induction ks arbitrary: k' w rule: rev_induct)
  case Nil
  then show ?case by simp
next
  case (snoc k ks)
  show ?case
  proof (cases "fmlookup (fold smf_body ks m0) k")
    case None
    with snoc.prems have "fmlookup (fold smf_body ks m0) k' = Some w"
      by (simp add: fmlookup_smf_body)
    with None snoc.IH[of k' w] show ?thesis
      by auto
  next
    case (Some v)
    show ?thesis
    proof (cases "k' = Replace_hyphens k")
      case True
      with Some snoc.prems have w: "w = standardize_value v"
        by (simp add: fmlookup_smf_body)
      from snoc.IH[OF Some] show ?thesis
      proof
        assume "\<exists>k0 v0. fmlookup m0 k0 = Some v0 \<and> k = Replace_hyphens k0
                  \<and> v = standardize_value v0"
        then obtain k0 v0 where "fmlookup m0 k0 = Some v0" "k = Replace_hyphens k0"
          "v = standardize_value v0"
          by blast
        with True w have "fmlookup m0 k0 = Some v0 \<and> k' = Replace_hyphens k0
            \<and> w = standardize_value v0"
          by (simp add: Replace_hyphens_idem standardize_value_idem)
        then show ?thesis
          by blast
      next
        assume "k \<notin> set ks \<and> fmlookup m0 k = Some v"
        with True w show ?thesis
          by blast
      qed
    next
      case False
      with Some snoc.prems have "k' \<noteq> k" "fmlookup (fold smf_body ks m0) k' = Some w"
        by (auto simp: fmlookup_smf_body split: if_splits)
      with snoc.IH[of k' w] show ?thesis
        by auto
    qed
  qed
qed


lemma smf_dom:
  "range_order ks m \<Longrightarrow> fmdom' (standardizeMatchFeature ks m) = Replace_hyphens ` fmdom' m"
  unfolding standardizeMatchFeature_def range_order_def fmdom'_fold_smf_body
  by auto

lemma smf_values:
  assumes "range_order ks m" "fmlookup (standardizeMatchFeature ks m) k' = Some w"
  shows "\<exists>k v. fmlookup m k = Some v \<and> k' = Replace_hyphens k \<and> w = standardize_value v"
proof -
  from assms(2) fmlookup_fold_smf_body[of ks m k' w]
  consider "\<exists>k v. fmlookup m k = Some v \<and> k' = Replace_hyphens k \<and> w = standardize_value v"
    | "k' \<notin> set ks" "fmlookup m k' = Some w"
    unfolding standardizeMatchFeature_def by blast
  then show ?thesis
  proof cases
    case 1
    then show ?thesis .
  next
    case 2
    with assms(1) show ?thesis
      by (auto simp: range_order_def dest: fmdom'I)
  qed
qed

lemma set_sorted_list_of_fmap:
  "(k, v) \<in> set (sorted_list_of_fmap m) \<longleftrightarrow> fmlookup m k = Some v"
  by (auto simp: sorted_list_of_fmap_def fmdom'_alt_def[symmetric] fmlookup_dom'_iff)

lemma copy_dom: "fmdom' (standardized_copy m) = Replace_hyphens ` fmdom' m"
proof -
  have "fmdom' (standardized_copy m)
      = (\<lambda>(k, v). Replace_hyphens k) ` set (sorted_list_of_fmap m)"
    by (simp add: standardized_copy_def fmdom'_alt_def fset_of_list.rep_eq image_image
        case_prod_unfold)
  also have "\<dots> = Replace_hyphens ` fmdom' m"
  proof (intro equalityI subsetI)
    fix x
    assume "x \<in> (\<lambda>(k, v). Replace_hyphens k) ` set (sorted_list_of_fmap m)"
    then obtain k v where "(k, v) \<in> set (sorted_list_of_fmap m)" "x = Replace_hyphens k"
      by auto
    then show "x \<in> Replace_hyphens ` fmdom' m"
      unfolding set_sorted_list_of_fmap by (auto dest: fmdom'I)
  next
    fix x
    assume "x \<in> Replace_hyphens ` fmdom' m"
    then obtain k where "k \<in> fmdom' m" and x: "x = Replace_hyphens k"
      by auto
    then obtain v where "fmlookup m k = Some v"
      unfolding fmlookup_dom'_iff by blast
    with x have "(k, v) \<in> set (sorted_list_of_fmap m)" "x = (\<lambda>(k, v). Replace_hyphens k) (k, v)"
      unfolding set_sorted_list_of_fmap by simp_all
    then show "x \<in> (\<lambda>(k, v). Replace_hyphens k) ` set (sorted_list_of_fmap m)"
      by (rule rev_image_eqI)
  qed
  finally show ?thesis .
qed

lemma copy_values:
  assumes "fmlookup (standardized_copy m) k' = Some w"
  shows "\<exists>k v. fmlookup m k = Some v \<and> k' = Replace_hyphens k \<and> w = standardize_value v"
proof -
  from assms have "(k', w) \<in> set (map (\<lambda>(k, v). (Replace_hyphens k, standardize_value v))
      (sorted_list_of_fmap m))"
    unfolding standardized_copy_def by (rule fmap_of_list_SomeD)
  then obtain k v where "(k, v) \<in> set (sorted_list_of_fmap m)" "k' = Replace_hyphens k"
    "w = standardize_value v"
    by auto
  then show ?thesis
    unfolding set_sorted_list_of_fmap by blast
qed

lemma standardized_unique:
  assumes inj: "inj_on Replace_hyphens (fmdom' m)"
    and domF: "fmdom' F = Replace_hyphens ` fmdom' m"
    and valF: "\<And>k' w. fmlookup F k' = Some w \<Longrightarrow>
       \<exists>k v. fmlookup m k = Some v \<and> k' = Replace_hyphens k \<and> w = standardize_value v"
    and domG: "fmdom' G = Replace_hyphens ` fmdom' m"
    and valG: "\<And>k' w. fmlookup G k' = Some w \<Longrightarrow>
       \<exists>k v. fmlookup m k = Some v \<and> k' = Replace_hyphens k \<and> w = standardize_value v"
  shows "F = G"
proof (rule fmap_ext)
  fix x
  show "fmlookup F x = fmlookup G x"
  proof (cases "x \<in> Replace_hyphens ` fmdom' m")
    case False
    with domF domG have "x \<notin> fmdom' F" "x \<notin> fmdom' G"
      by auto
    then show ?thesis
      by (simp add: fmdom'_notD)
  next
    case True
    with domF domG have "x \<in> fmdom' F" "x \<in> fmdom' G"
      by simp_all
    then obtain a b where a: "fmlookup F x = Some a" and b: "fmlookup G x = Some b"
      unfolding fmlookup_dom'_iff by blast
    from valF[OF a] obtain k v where kv: "fmlookup m k = Some v" "x = Replace_hyphens k"
      "a = standardize_value v"
      by blast
    from valG[OF b] obtain k2 v2 where kv2: "fmlookup m k2 = Some v2" "x = Replace_hyphens k2"
      "b = standardize_value v2"
      by blast
    from kv kv2 inj have "k = k2"
      by (auto simp: inj_on_def dest: fmdom'I)
    with kv kv2 a b show ?thesis
      by simp
  qed
qed

lemma smf_fixed:
  assumes "\<And>k. k \<in> fmdom' m \<Longrightarrow> Replace_hyphens k = k"
    and "\<And>v. v \<in> fmran' m \<Longrightarrow> standardize_value v = v"
  shows "standardizeMatchFeature ks m = m"
proof -
  have step: "smf_body k m = m" for k
  proof (cases "fmlookup m k")
    case None
    then show ?thesis by (simp add: smf_body_def)
  next
    case (Some v)
    then have "Replace_hyphens k = k" "standardize_value v = v"
      using assms by (auto dest: fmdom'I fmran'I)
    with Some show ?thesis
      by (auto simp: smf_body_def intro!: fmap_ext)
  qed
  show ?thesis
    unfolding standardizeMatchFeature_def
    by (induction ks) (simp_all add: step)
qed


lemma range_orders_key_order: "range_orders key_order"
  by (simp add: range_orders_def range_order_def key_order_def fmdom'_alt_def)

text \<open>
  C4. For every match or feature object and every order in which \<^verbatim>\<open>range\<close> may produce its
  keys, standardizeMatchFeature leaves a map whose keys are exactly the keys of the input with
  every hyphen replaced by an underscore, and each of whose values is the standardized value of
  an input entry with that key; an input entry whose standardized key is shared with no other
  key of the object ends under its standardized key with its standardized value. The key keeps
  its length and every byte but the hyphens, so a key without a hyphen is unchanged. An array
  of strings, of any length, becomes the strings joined by single spaces in their order: the
  empty string for the empty array, and otherwise each string but the last followed by one
  space, in order, and then the last string. An array with an element that is not a string
  stays as it is, and so does a value that is not an array.
\<close>

theorem standardizeMatchFeature_standardizes:
  assumes "range_order ks m"
  shows "fmdom' (standardizeMatchFeature ks m) = Replace_hyphens ` fmdom' m
    \<and> (\<forall>k' w. fmlookup (standardizeMatchFeature ks m) k' = Some w \<longrightarrow>
          (\<exists>k v. fmlookup m k = Some v \<and> k' = Replace_hyphens k \<and> w = standardize_value v))
    \<and> (\<forall>k v. fmlookup m k = Some v
          \<and> (\<forall>k2 \<in> fmdom' m. Replace_hyphens k2 = Replace_hyphens k \<longrightarrow> k2 = k) \<longrightarrow>
          fmlookup (standardizeMatchFeature ks m) (Replace_hyphens k) = Some (standardize_value v))
    \<and> (\<forall>k. length (Replace_hyphens k) = length k
          \<and> (\<forall>i < length k.
                Replace_hyphens k ! i = (if k ! i = CHR ''-'' then CHR ''_'' else k ! i))
          \<and> (CHR ''-'' \<notin> set k \<longrightarrow> Replace_hyphens k = k))
    \<and> (\<forall>ss. standardize_value (JArr (map JStr ss)) = JStr (Join ss '' ''))
    \<and> (\<forall>ss sep. Join ss sep =
          (if ss = [] then [] else concat (map (\<lambda>s. s @ sep) (butlast ss)) @ last ss))
    \<and> (\<forall>ss. standardize_value (JArr (map JStr ss)) =
          JStr (if ss = [] then [] else concat (map (\<lambda>s. s @ '' '') (butlast ss)) @ last ss))
    \<and> Join [a, b, c] '' '' = a @ '' '' @ b @ '' '' @ c
    \<and> (\<forall>xs. (\<exists>x \<in> set xs. \<forall>s. x \<noteq> JStr s) \<longrightarrow> standardize_value (JArr xs) = JArr xs)
    \<and> (\<forall>v. (\<forall>xs. v \<noteq> JArr xs) \<longrightarrow> standardize_value v = v)"
proof -
  let ?out = "standardizeMatchFeature ks m"
  have dom: "fmdom' ?out = Replace_hyphens ` fmdom' m"
    using assms by (rule smf_dom)
  have vals: "\<exists>k v. fmlookup m k = Some v \<and> k' = Replace_hyphens k \<and> w = standardize_value v"
    if "fmlookup ?out k' = Some w" for k' w
    using assms that by (rule smf_values)
  have entry: "fmlookup ?out (Replace_hyphens k) = Some (standardize_value v)"
    if kv: "fmlookup m k = Some v"
      and alone: "\<forall>k2 \<in> fmdom' m. Replace_hyphens k2 = Replace_hyphens k \<longrightarrow> k2 = k"
    for k v
  proof -
    from kv have "Replace_hyphens k \<in> fmdom' ?out"
      unfolding dom by (auto dest: fmdom'I)
    then obtain w where w: "fmlookup ?out (Replace_hyphens k) = Some w"
      unfolding fmlookup_dom'_iff by blast
    from vals[OF w] obtain k2 v2 where k2: "fmlookup m k2 = Some v2"
      "Replace_hyphens k = Replace_hyphens k2" "w = standardize_value v2"
      by blast
    with alone have "k2 = k"
      by (auto dest: fmdom'I)
    with k2 kv w show ?thesis
      by simp
  qed
  have keys: "length (Replace_hyphens k) = length k
      \<and> (\<forall>i < length k. Replace_hyphens k ! i = (if k ! i = CHR ''-'' then CHR ''_'' else k ! i))
      \<and> (CHR ''-'' \<notin> set k \<longrightarrow> Replace_hyphens k = k)" for k
    using Replace_hyphens_id[of k] by (simp add: Replace_hyphens_def)
  have conv: "ConvertSliceToStrings (map JStr ss) = Some ss" for ss
    by (induction ss) simp_all
  have joined: "standardize_value (JArr (map JStr ss)) = JStr (Join ss '' '')" for ss
    by (simp add: standardize_value_def conv)
  have noconv: "ConvertSliceToStrings xs = None" if "\<exists>x \<in> set xs. \<forall>s. x \<noteq> JStr s" for xs
    using that by (induction xs rule: ConvertSliceToStrings.induct) auto
  have kept: "standardize_value (JArr xs) = JArr xs" if "\<exists>x \<in> set xs. \<forall>s. x \<noteq> JStr s" for xs
    using noconv[OF that] by (simp add: standardize_value_def)
  have other: "standardize_value v = v" if "\<forall>xs. v \<noteq> JArr xs" for v
    using that by (cases v) (simp_all add: standardize_value_def)
  have c2: "\<forall>k' w. fmlookup ?out k' = Some w \<longrightarrow>
      (\<exists>k v. fmlookup m k = Some v \<and> k' = Replace_hyphens k \<and> w = standardize_value v)"
    using vals by blast
  have c3: "\<forall>k v. fmlookup m k = Some v
      \<and> (\<forall>k2 \<in> fmdom' m. Replace_hyphens k2 = Replace_hyphens k \<longrightarrow> k2 = k) \<longrightarrow>
      fmlookup ?out (Replace_hyphens k) = Some (standardize_value v)"
    using entry by blast
  have c4: "\<forall>k. length (Replace_hyphens k) = length k
      \<and> (\<forall>i < length k. Replace_hyphens k ! i = (if k ! i = CHR ''-'' then CHR ''_'' else k ! i))
      \<and> (CHR ''-'' \<notin> set k \<longrightarrow> Replace_hyphens k = k)"
    using keys by blast
  have c5: "\<forall>ss. standardize_value (JArr (map JStr ss)) = JStr (Join ss '' '')"
    using joined by blast
  have closed: "Join ss sep =
      (if ss = [] then [] else concat (map (\<lambda>s. s @ sep) (butlast ss)) @ last ss)" for ss sep
    by (induction ss sep rule: Join.induct) simp_all
  have c5a: "\<forall>ss sep. Join ss sep =
      (if ss = [] then [] else concat (map (\<lambda>s. s @ sep) (butlast ss)) @ last ss)"
    using closed by blast
  have c5b: "\<forall>ss. standardize_value (JArr (map JStr ss)) =
      JStr (if ss = [] then [] else concat (map (\<lambda>s. s @ '' '') (butlast ss)) @ last ss)"
    unfolding joined using closed by blast
  have c6: "Join [a, b, c] '' '' = a @ '' '' @ b @ '' '' @ c"
    by simp
  have c7: "\<forall>xs. (\<exists>x \<in> set xs. \<forall>s. x \<noteq> JStr s) \<longrightarrow> standardize_value (JArr xs) = JArr xs"
    using kept by blast
  have c8: "\<forall>v. (\<forall>xs. v \<noteq> JArr xs) \<longrightarrow> standardize_value v = v"
    using other by blast
  show ?thesis
    by (intro conjI dom c2 c3 c4 c5 c5a c5b c6 c7 c8)
qed

theorem standardizeMatchFeature_standardizes_witness:
  "range_order [''value-list'', ''type'', ''nested'']
     (fmap_of_list [(''type'', JStr ''feature.list''),
        (''value-list'', JArr [JStr ''a'', JStr ''b'', JStr ''c'']),
        (''nested'', JArr [JStr ''a'', JNum 1])])
   \<and> fmlookup (standardizeMatchFeature [''value-list'', ''type'', ''nested'']
       (fmap_of_list [(''type'', JStr ''feature.list''),
          (''value-list'', JArr [JStr ''a'', JStr ''b'', JStr ''c'']),
          (''nested'', JArr [JStr ''a'', JNum 1])])) ''value_list'' = Some (JStr ''a b c'')
   \<and> fmdom' (standardizeMatchFeature [''value-list'', ''type'', ''nested'']
       (fmap_of_list [(''type'', JStr ''feature.list''),
          (''value-list'', JArr [JStr ''a'', JStr ''b'', JStr ''c'']),
          (''nested'', JArr [JStr ''a'', JNum 1])])) = {''type'', ''value_list'', ''nested''}
   \<and> standardize_value (JArr []) = JStr []
   \<and> standardize_value (JArr [JStr ''GET'']) = JStr ''GET''
   \<and> standardize_value (JArr [JStr ''GET'', JStr ''HEAD'']) = JStr ''GET HEAD''
   \<and> standardize_value (JArr [JStr ''GET'', JStr ''HEAD'', JStr ''POST'', JStr ''PUT''])
       = JStr ''GET HEAD POST PUT''"
proof -
  let ?m = "fmap_of_list [(''type'', JStr ''feature.list''),
        (''value-list'', JArr [JStr ''a'', JStr ''b'', JStr ''c'']),
        (''nested'', JArr [JStr ''a'', JNum 1])]"
  let ?ks = "[''value-list'', ''type'', ''nested'']"
  have ro: "range_order ?ks ?m"
    by (simp add: range_order_def)
  have h: "Replace_hyphens ''value-list'' = ''value_list''"
    "Replace_hyphens ''type'' = ''type''" "Replace_hyphens ''nested'' = ''nested''"
    by (simp_all add: Replace_hyphens_def)
  have v: "standardize_value (JArr [JStr ''a'', JStr ''b'', JStr ''c'']) = JStr ''a b c''"
    by (simp add: standardize_value_def)
  from standardizeMatchFeature_standardizes[OF ro, of "''x''" "''y''" "''z''"]
  have d: "fmdom' (standardizeMatchFeature ?ks ?m) = Replace_hyphens ` fmdom' ?m"
    and e: "\<And>k v. fmlookup ?m k = Some v \<Longrightarrow>
          (\<forall>k2 \<in> fmdom' ?m. Replace_hyphens k2 = Replace_hyphens k \<longrightarrow> k2 = k) \<Longrightarrow>
          fmlookup (standardizeMatchFeature ?ks ?m) (Replace_hyphens k)
            = Some (standardize_value v)"
    and j: "\<And>ss. standardize_value (JArr (map JStr ss)) =
          JStr (if ss = [] then [] else concat (map (\<lambda>s. s @ '' '') (butlast ss)) @ last ss)"
    by blast+
  have "fmlookup (standardizeMatchFeature ?ks ?m) (Replace_hyphens ''value-list'')
      = Some (standardize_value (JArr [JStr ''a'', JStr ''b'', JStr ''c'']))"
    by (rule e) (simp_all add: h)
  moreover have "standardize_value (JArr []) = JStr []"
    using j[of "[]"] by simp
  moreover have "standardize_value (JArr [JStr ''GET'']) = JStr ''GET''"
    using j[of "[''GET'']"] by simp
  moreover have "standardize_value (JArr [JStr ''GET'', JStr ''HEAD'']) = JStr ''GET HEAD''"
    using j[of "[''GET'', ''HEAD'']"] by simp
  moreover have "standardize_value (JArr [JStr ''GET'', JStr ''HEAD'', JStr ''POST'', JStr ''PUT''])
      = JStr ''GET HEAD POST PUT''"
    using j[of "[''GET'', ''HEAD'', ''POST'', ''PUT'']"] by simp
  ultimately show ?thesis
    using ro d by (simp add: h v insert_commute)
qed

text \<open>
  C10. When no two keys of a match or feature object standardize to the same key, the loop of
  standardizeMatchFeature, which deletes and stores entries of the map it is ranging over, ends
  with the same map whatever the order in which \<^verbatim>\<open>range\<close> produces the keys (and whether or
  not it produces the entries created on the way), and that map is the one built fresh from the
  transformed entries.
\<close>

theorem standardizeMatchFeature_order_independent:
  assumes "inj_on Replace_hyphens (fmdom' m)"
    and "range_order ks m"
    and "range_order ks' m"
  shows "standardizeMatchFeature ks m = standardizeMatchFeature ks' m
    \<and> standardizeMatchFeature ks m = standardized_copy m"
proof
  show "standardizeMatchFeature ks m = standardizeMatchFeature ks' m"
    using assms(1) smf_dom[OF assms(2)] smf_values[OF assms(2)]
      smf_dom[OF assms(3)] smf_values[OF assms(3)]
    by (rule standardized_unique)
  show "standardizeMatchFeature ks m = standardized_copy m"
    using assms(1) smf_dom[OF assms(2)] smf_values[OF assms(2)] copy_dom copy_values
    by (rule standardized_unique)
qed

theorem standardizeMatchFeature_order_independent_witness:
  "inj_on Replace_hyphens (fmdom' (fmap_of_list [(''a-b'', JArr [JStr ''x'', JStr ''y'']),
       (''c'', JNum 1)]))
   \<and> range_order [''a-b'', ''c'']
       (fmap_of_list [(''a-b'', JArr [JStr ''x'', JStr ''y'']), (''c'', JNum 1)])
   \<and> range_order [''c'', ''a-b'', ''a_b'', ''c'']
       (fmap_of_list [(''a-b'', JArr [JStr ''x'', JStr ''y'']), (''c'', JNum 1)])
   \<and> standardizeMatchFeature [''a-b'', ''c'']
       (fmap_of_list [(''a-b'', JArr [JStr ''x'', JStr ''y'']), (''c'', JNum 1)])
     = standardizeMatchFeature [''c'', ''a-b'', ''a_b'', ''c'']
       (fmap_of_list [(''a-b'', JArr [JStr ''x'', JStr ''y'']), (''c'', JNum 1)])
   \<and> standardizeMatchFeature [''a-b'', ''c'']
       (fmap_of_list [(''a-b'', JArr [JStr ''x'', JStr ''y'']), (''c'', JNum 1)])
     = standardized_copy
       (fmap_of_list [(''a-b'', JArr [JStr ''x'', JStr ''y'']), (''c'', JNum 1)])"
proof -
  let ?m = "fmap_of_list [(''a-b'', JArr [JStr ''x'', JStr ''y'']), (''c'', JNum 1)]"
  have i: "inj_on Replace_hyphens (fmdom' ?m)"
    by (simp add: Replace_hyphens_def)
  have r1: "range_order [''a-b'', ''c''] ?m"
    and r2: "range_order [''c'', ''a-b'', ''a_b'', ''c''] ?m"
    by (simp_all add: range_order_def)
  from standardizeMatchFeature_order_independent[OF i r1 r2] i r1 r2 show ?thesis
    by blast
qed

section \<open>Properties of cleanMatches and cleanPolicy\<close>

lemma matches_within_Cons:
  "m \<in> matches_within (a # as) \<Longrightarrow> m \<in> matches_within [a] \<or> m \<in> matches_within as"
  by (induction rule: matches_within.induct) (auto intro: matches_within.intros)

lemma matches_within_single:
  "m \<in> matches_within [a] \<Longrightarrow> m = a \<or> m \<in> matches_within (objects_under ''matches'' a)"
  by (induction rule: matches_within.induct) (auto intro: matches_within.intros)

lemma matches_within_Nil: "m \<in> matches_within [] \<Longrightarrow> False"
  by (induction rule: matches_within.induct) auto

lemma objects_of_no_array:
  "decoded v \<Longrightarrow> \<forall>xs. v \<noteq> JArr xs \<Longrightarrow> objects_of v = []"
  by (cases v) (auto simp: objects_of_def)

lemma length_objects_of_JArr:
  "\<forall>x \<in> set xs. \<exists>m. x = JObj m \<Longrightarrow> length (objects_of (JArr xs)) = length xs"
  by (induction xs) (auto simp: objects_of_def)

lemma objects_under_JMaps:
  "fmlookup m k = Some (JMaps ms) \<Longrightarrow> objects_under k m = ms"
  by (simp add: objects_under_def objects_of_def)

lemma objects_under_no_array:
  assumes "\<And>v. fmlookup m k = Some v \<Longrightarrow> decoded v"
    and "\<And>xs. fmlookup m k \<noteq> Some (JArr xs)"
  shows "objects_under k m = []"
proof (cases "fmlookup m k")
  case None
  then show ?thesis by (simp add: objects_under_def)
next
  case (Some v)
  with assms have "decoded v" "\<forall>xs. v \<noteq> JArr xs"
    by auto
  then have "objects_of v = []"
    by (rule objects_of_no_array)
  with Some show ?thesis
    by (simp add: objects_under_def)
qed

lemma Replace_hyphens_ordinal: "Replace_hyphens k = ''ordinal'' \<Longrightarrow> k = ''ordinal''"
  by (auto simp: Replace_hyphens_def map_eq_Cons_conv split: if_splits)

lemma smf_no_ordinal:
  "''ordinal'' \<notin> fmdom' m \<Longrightarrow> ''ordinal'' \<notin> fmdom' (standardizeMatchFeature ks m)"
  unfolding standardizeMatchFeature_def fmdom'_fold_smf_body
  by (auto dest: Replace_hyphens_ordinal[OF sym])

lemma standardize_value_decoded: "decoded v \<Longrightarrow> decoded (standardize_value v)"
  by (auto simp: standardize_value_def split: jv.splits option.splits)

lemma smf_decoded:
  assumes "\<forall>v \<in> fmran' m. decoded v"
  shows "\<forall>v \<in> fmran' (standardizeMatchFeature ks m). decoded v"
proof
  fix w
  assume "w \<in> fmran' (standardizeMatchFeature ks m)"
  then obtain k' where "fmlookup (fold smf_body ks m) k' = Some w"
    unfolding standardizeMatchFeature_def by (auto elim: fmran'E)
  from fmlookup_fold_smf_body[OF this] assms show "decoded w"
    by (auto dest: fmran'I intro: standardize_value_decoded)
qed

lemma smf_drop_ordinal:
  "''ordinal'' \<notin> fmdom' (standardizeMatchFeature ks (fmdrop ''ordinal'' m))"
  by (rule smf_no_ordinal) simp

lemma cleanFeatures_no_ordinal:
  "cleanFeatures ord p j fs = Inr fs' \<Longrightarrow> \<forall>f \<in> set fs'. ''ordinal'' \<notin> fmdom' f"
  by (induction fs arbitrary: fs' j)
    (auto split: jv.splits sum.splits simp: Let_def smf_drop_ordinal)

lemma cleanMatchFeatures_props:
  assumes "cleanMatchFeatures ord q m = Inr m'"
  shows "fmdom' m' = fmdom' m"
    and "\<And>k. k \<noteq> ''features'' \<Longrightarrow> fmlookup m' k = fmlookup m k"
    and "\<And>fs. fmlookup m' ''features'' = Some (JMaps fs) \<Longrightarrow>
           fmlookup m ''features'' = Some (JMaps fs) \<or> (\<forall>f \<in> set fs. ''ordinal'' \<notin> fmdom' f)"
  using assms
  by (auto simp: cleanMatchFeatures_def dest: cleanFeatures_no_ordinal fmdom'I
      split: option.splits jv.splits sum.splits)

lemma cleanMatchFeatures_cases:
  assumes "cleanMatchFeatures ord q cm = Inr m4"
  shows "(\<exists>fs fs'. fmlookup cm ''features'' = Some (JArr fs)
            \<and> cleanFeatures ord (1 # q) 0 fs = Inr fs'
            \<and> m4 = fmupd ''features'' (JMaps fs') cm)
       \<or> ((\<forall>fs. fmlookup cm ''features'' \<noteq> Some (JArr fs)) \<and> m4 = cm)"
  using assms
  by (auto simp: cleanMatchFeatures_def split: option.splits jv.splits sum.splits)

lemma cleanMatches_Cons_InrD:
  assumes "cleanMatches ord p i (x # xs) = Inr ms"
  shows "\<exists>m m4 rest. x = JObj m \<and> ms = m4 # rest \<and> cleanMatches ord p (Suc i) xs = Inr rest \<and>
     ((\<exists>children cs.
          fmlookup (standardizeMatchFeature (ord (i # p) (fmdrop ''ordinal'' m))
            (fmdrop ''ordinal'' m)) ''matches'' = Some (JArr children)
          \<and> cleanMatches ord (0 # i # p) 0 children = Inr cs
          \<and> cleanMatchFeatures ord (i # p) (fmupd ''matches'' (JMaps cs)
                (standardizeMatchFeature (ord (i # p) (fmdrop ''ordinal'' m))
                   (fmdrop ''ordinal'' m)))
              = Inr m4)
      \<or> ((\<forall>children.
             fmlookup (standardizeMatchFeature (ord (i # p) (fmdrop ''ordinal'' m))
               (fmdrop ''ordinal'' m)) ''matches'' \<noteq> Some (JArr children))
          \<and> cleanMatchFeatures ord (i # p)
               (standardizeMatchFeature (ord (i # p) (fmdrop ''ordinal'' m))
                  (fmdrop ''ordinal'' m))
              = Inr m4))"
proof (cases x)
  case (JObj m)
  let ?cm = "standardizeMatchFeature (ord (i # p) (fmdrop ''ordinal'' m)) (fmdrop ''ordinal'' m)"
  show ?thesis
  proof (cases "\<exists>children. fmlookup ?cm ''matches'' = Some (JArr children)")
    case True
    then obtain children where c: "fmlookup ?cm ''matches'' = Some (JArr children)"
      by blast
    with assms JObj show ?thesis
      by (auto simp: Let_def append_cleaned_def split: sum.splits)
  next
    case False
    with assms JObj show ?thesis
      by (auto simp: Let_def append_cleaned_def split: sum.splits option.splits jv.splits)
  qed
qed (use assms in simp_all)

lemma cleanMatches_length:
  "cleanMatches ord p i xs = Inr ms \<Longrightarrow>
     length ms = length xs \<and> (\<forall>x \<in> set xs. \<exists>m. x = JObj m)"
proof (induction xs arbitrary: ms i)
  case Nil
  then show ?case by simp
next
  case (Cons x xs)
  from cleanMatches_Cons_InrD[OF Cons.prems]
  obtain m m4 rest where "x = JObj m" "ms = m4 # rest"
    "cleanMatches ord p (Suc i) xs = Inr rest"
    by blast
  with Cons.IH[of "Suc i" rest] show ?case
    by simp
qed

lemma decoded_not_JMaps: "decoded v \<Longrightarrow> v \<noteq> JMaps ms"
  by auto

lemma cleaned_match_values_decoded:
  assumes "decoded (JObj m)"
  shows "\<forall>v \<in> fmran' (standardizeMatchFeature ks (fmdrop ''ordinal'' m)). decoded v"
proof (rule smf_decoded)
  show "\<forall>v \<in> fmran' (fmdrop ''ordinal'' m). decoded v"
  proof
    fix v assume "v \<in> fmran' (fmdrop ''ordinal'' m)"
    then obtain k where "fmlookup (fmdrop ''ordinal'' m) k = Some v"
      by (auto elim: fmran'E)
    then have "fmlookup m k = Some v"
      by (simp split: if_splits)
    then have "v \<in> fmran' m"
      by (rule fmran'I)
    with assms show "decoded v" by simp
  qed
qed

lemma cleanMatchFeatures_ordinal_free:
  assumes m4: "cleanMatchFeatures ord q cm = Inr m4"
    and o: "''ordinal'' \<notin> fmdom' cm"
    and f: "\<And>v. fmlookup cm ''features'' = Some v \<Longrightarrow> decoded v"
  shows "ordinal_free m4"
proof -
  have "''ordinal'' \<notin> fmdom' m4"
    using cleanMatchFeatures_props(1)[OF m4] o by simp
  moreover have "\<forall>g \<in> set (objects_under ''features'' m4). ''ordinal'' \<notin> fmdom' g"
    using cleanMatchFeatures_cases[OF m4]
  proof (elim disjE exE conjE)
    fix fs fs'
    assume "cleanFeatures ord (1 # q) 0 fs = Inr fs'"
      and "m4 = fmupd ''features'' (JMaps fs') cm"
    then show ?thesis
      by (auto simp: objects_under_def objects_of_def dest: cleanFeatures_no_ordinal)
  next
    assume "\<forall>fs. fmlookup cm ''features'' \<noteq> Some (JArr fs)" and "m4 = cm"
    with f have "objects_under ''features'' m4 = []"
      by (intro objects_under_no_array) auto
    then show ?thesis
      by simp
  qed
  ultimately show ?thesis
    unfolding ordinal_free_def by blast
qed

lemma matches_within_head_no_children:
  assumes "objects_under ''matches'' m4 = []" "y \<in> matches_within [m4]"
  shows "y = m4"
  using matches_within_single[OF assms(2)] assms(1) by (auto dest: matches_within_Nil)

lemma matches_within_head_children:
  assumes "fmlookup m4 ''matches'' = Some (JMaps cs)" "y \<in> matches_within [m4]"
  shows "y = m4 \<or> y \<in> matches_within cs"
  using matches_within_single[OF assms(2)] objects_under_JMaps[OF assms(1)] by auto

lemma cleanMatches_ordinal_free:
  "cleanMatches ord p i xs = Inr ms \<Longrightarrow> \<forall>x \<in> set xs. decoded x \<Longrightarrow>
     \<forall>m \<in> matches_within ms. ordinal_free m"
proof (induction xs arbitrary: ms p i rule: measure_induct_rule[where f = "size_list size"])
  case (less xs)
  show ?case
  proof (cases xs)
    case Nil
    with less.prems have "ms = []" by simp
    then show ?thesis
      by (auto dest: matches_within_Nil)
  next
    case (Cons x xs')
    from cleanMatches_Cons_InrD[OF less.prems(1)[unfolded Cons]]
    obtain m m4 rest where x: "x = JObj m" and ms: "ms = m4 # rest"
      and rest: "cleanMatches ord p (Suc i) xs' = Inr rest"
      and body: "(\<exists>children cs.
          fmlookup (standardizeMatchFeature (ord (i # p) (fmdrop ''ordinal'' m))
            (fmdrop ''ordinal'' m)) ''matches'' = Some (JArr children)
          \<and> cleanMatches ord (0 # i # p) 0 children = Inr cs
          \<and> cleanMatchFeatures ord (i # p) (fmupd ''matches'' (JMaps cs)
                (standardizeMatchFeature (ord (i # p) (fmdrop ''ordinal'' m))
                   (fmdrop ''ordinal'' m)))
              = Inr m4)
      \<or> ((\<forall>children.
             fmlookup (standardizeMatchFeature (ord (i # p) (fmdrop ''ordinal'' m))
               (fmdrop ''ordinal'' m)) ''matches'' \<noteq> Some (JArr children))
          \<and> cleanMatchFeatures ord (i # p)
               (standardizeMatchFeature (ord (i # p) (fmdrop ''ordinal'' m))
                  (fmdrop ''ordinal'' m))
              = Inr m4)"
      by blast
    define cm where
      "cm = standardizeMatchFeature (ord (i # p) (fmdrop ''ordinal'' m)) (fmdrop ''ordinal'' m)"
    note body' = body[folded cm_def]
    from less.prems(2) Cons x have dm: "decoded (JObj m)" and dxs': "\<forall>x \<in> set xs'. decoded x"
      by simp_all
    have dcm: "\<forall>v \<in> fmran' cm. decoded v"
      unfolding cm_def using dm by (rule cleaned_match_values_decoded)
    have dlook: "decoded v" if "fmlookup cm k = Some v" for k v
      using dcm fmran'I[OF that] by blast
    have ocm: "''ordinal'' \<notin> fmdom' cm"
      unfolding cm_def by (rule smf_drop_ordinal)
    have "size_list size xs' < size_list size xs"
      using Cons by simp
    from less.IH[OF this rest dxs'] have IHrest: "\<forall>m \<in> matches_within rest. ordinal_free m" .
    have head: "ordinal_free y" if y: "y \<in> matches_within [m4]" for y
      using body'
    proof (elim disjE exE conjE)
      fix children cs
      assume look: "fmlookup cm ''matches'' = Some (JArr children)"
        and cs: "cleanMatches ord (0 # i # p) 0 children = Inr cs"
        and m4: "cleanMatchFeatures ord (i # p) (fmupd ''matches'' (JMaps cs) cm) = Inr m4"
      have "size_list size children < size_fmap (\<lambda>_. 0) size m"
        using look unfolding cm_def by (rule cleanMatches_child_size)
      then have small: "size_list size children < size_list size xs"
        using Cons x by (simp del: size_fmap_def)
      from look have "decoded (JArr children)"
        by (rule dlook)
      then have "\<forall>c \<in> set children. decoded c"
        by simp
      from less.IH[OF small cs this] have IHcs: "\<forall>c \<in> matches_within cs. ordinal_free c" .
      have om4: "ordinal_free m4"
        using m4
      proof (rule cleanMatchFeatures_ordinal_free)
        show "''ordinal'' \<notin> fmdom' (fmupd ''matches'' (JMaps cs) cm)"
          using ocm by simp
        show "decoded v" if "fmlookup (fmupd ''matches'' (JMaps cs) cm) ''features'' = Some v"
          for v
          using that dlook[of "''features''" v] by simp
      qed
      from cleanMatchFeatures_props(2)[OF m4, of "''matches''"]
      have lm4: "fmlookup m4 ''matches'' = Some (JMaps cs)"
        by simp
      from matches_within_head_children[OF lm4 y] om4 IHcs show "ordinal_free y"
        by blast
    next
      assume nolook: "\<forall>children. fmlookup cm ''matches'' \<noteq> Some (JArr children)"
        and m4: "cleanMatchFeatures ord (i # p) cm = Inr m4"
      have om4: "ordinal_free m4"
        using m4 ocm dlook by (rule cleanMatchFeatures_ordinal_free)
      from cleanMatchFeatures_props(2)[OF m4, of "''matches''"]
      have "fmlookup m4 ''matches'' = fmlookup cm ''matches''"
        by simp
      with nolook dlook have "objects_under ''matches'' m4 = []"
        by (intro objects_under_no_array) auto
      from matches_within_head_no_children[OF this y] om4 show "ordinal_free y"
        by simp
    qed
    show ?thesis
    proof
      fix y
      assume "y \<in> matches_within ms"
      with ms have "y \<in> matches_within (m4 # rest)" by simp
      from matches_within_Cons[OF this] head IHrest show "ordinal_free y"
        by blast
    qed
  qed
qed

lemma fmlookup_fold_fmdrop:
  "fmlookup (fold fmdrop ks m) k = (if k \<in> set ks then None else fmlookup m k)"
  by (induction ks arbitrary: m) auto

lemma fmdom'_fold_fmdrop: "fmdom' (fold fmdrop ks m) = fmdom' m - set ks"
  by (induction ks arbitrary: m) auto

lemma fmran'_fold_fmdrop: "v \<in> fmran' (fold fmdrop ks m) \<Longrightarrow> v \<in> fmran' m"
proof -
  assume "v \<in> fmran' (fold fmdrop ks m)"
  then obtain k where "fmlookup (fold fmdrop ks m) k = Some v"
    by (auto elim: fmran'E)
  then have "fmlookup m k = Some v"
    by (simp add: fmlookup_fold_fmdrop split: if_splits)
  then show ?thesis
    by (rule fmran'I)
qed

lemma cleanRuleMatches_cases:
  assumes "cleanRuleMatches ord i r0 = Inr r"
  shows "(\<exists>xs ms. fmlookup r0 ''matches'' = Some (JArr xs)
            \<and> cleanMatches ord [i] 0 xs = Inr ms
            \<and> r = fmupd ''matches'' (JMaps ms) r0)
       \<or> ((\<forall>xs. fmlookup r0 ''matches'' \<noteq> Some (JArr xs)) \<and> r = r0)"
  using assms
  by (auto simp: cleanRuleMatches_def split: option.splits jv.splits sum.splits)

lemma cleanRuleMatches_props:
  assumes r: "cleanRuleMatches ord i r0 = Inr r"
    and d: "\<forall>v \<in> fmran' r0. decoded v"
  shows "fmdom' r = fmdom' r0"
    and "\<And>k. k \<noteq> ''matches'' \<Longrightarrow> fmlookup r k = fmlookup r0 k"
    and "\<forall>m \<in> matches_within (objects_under ''matches'' r). ordinal_free m"
    and "length (objects_under ''matches'' r) = length (objects_under ''matches'' r0)"
proof -
  have dlook: "decoded v" if "fmlookup r0 k = Some v" for k v
    using d fmran'I[OF that] by blast
  show "fmdom' r = fmdom' r0"
    using cleanRuleMatches_cases[OF r] by (auto dest: fmdom'I)
  show "fmlookup r k = fmlookup r0 k" if "k \<noteq> ''matches''" for k
    using cleanRuleMatches_cases[OF r] that by auto
  show "\<forall>m \<in> matches_within (objects_under ''matches'' r). ordinal_free m"
    using cleanRuleMatches_cases[OF r]
  proof (elim disjE exE conjE)
    fix xs ms
    assume xs: "fmlookup r0 ''matches'' = Some (JArr xs)"
      and ms: "cleanMatches ord [i] 0 xs = Inr ms"
      and rr: "r = fmupd ''matches'' (JMaps ms) r0"
    from xs have "decoded (JArr xs)" by (rule dlook)
    then have "\<forall>x \<in> set xs. decoded x" by simp
    with ms have "\<forall>m \<in> matches_within ms. ordinal_free m"
      by (rule cleanMatches_ordinal_free)
    moreover from rr have "objects_under ''matches'' r = ms"
      by (simp add: objects_under_def objects_of_def)
    ultimately show ?thesis by simp
  next
    assume "\<forall>xs. fmlookup r0 ''matches'' \<noteq> Some (JArr xs)" and "r = r0"
    with dlook have "objects_under ''matches'' r = []"
      by (intro objects_under_no_array) auto
    then show ?thesis
      by (auto dest: matches_within_Nil)
  qed
  show "length (objects_under ''matches'' r) = length (objects_under ''matches'' r0)"
    using cleanRuleMatches_cases[OF r]
  proof (elim disjE exE conjE)
    fix xs ms
    assume xs: "fmlookup r0 ''matches'' = Some (JArr xs)"
      and ms: "cleanMatches ord [i] 0 xs = Inr ms"
      and rr: "r = fmupd ''matches'' (JMaps ms) r0"
    from cleanMatches_length[OF ms] have "length ms = length xs"
      and "length (objects_of (JArr xs)) = length xs"
      by (simp_all add: length_objects_of_JArr)
    with xs rr show ?thesis
      by (simp add: objects_under_def objects_of_def)
  qed simp
qed

lemma cleanRules_cleaned:
  "cleanRules ord i rules = Inr ruleMaps \<Longrightarrow> \<forall>x \<in> set rules. decoded x \<Longrightarrow>
     list_all2 rule_cleaned rules ruleMaps"
proof (induction rules arbitrary: ruleMaps i)
  case Nil
  then show ?case by simp
next
  case (Cons x rules)
  from Cons.prems(1) obtain ruleMap r rest where x: "x = JObj ruleMap"
    and r: "cleanRuleMatches ord i (fold fmdrop rule_metadata ruleMap) = Inr r"
    and rest: "cleanRules ord (Suc i) rules = Inr rest"
    and rm: "ruleMaps = r # rest"
    by (auto simp: append_cleaned_def split: jv.splits sum.splits)
  from Cons.prems(2) x have "decoded (JObj ruleMap)" by simp
  then have d: "\<forall>v \<in> fmran' (fold fmdrop rule_metadata ruleMap). decoded v"
    by (auto dest: fmran'_fold_fmdrop)
  have nm: "''matches'' \<notin> set rule_metadata"
    by (simp add: rule_metadata_def)
  have "fmdom' r = fmdom' ruleMap - set rule_metadata"
    using cleanRuleMatches_props(1)[OF r d] by (simp add: fmdom'_fold_fmdrop)
  moreover have "\<forall>k. k \<notin> set rule_metadata \<and> k \<noteq> ''matches'' \<longrightarrow>
      fmlookup r k = fmlookup ruleMap k"
    using cleanRuleMatches_props(2)[OF r d] by (simp add: fmlookup_fold_fmdrop)
  moreover have "length (objects_under ''matches'' r) = length (objects_under ''matches'' ruleMap)"
    using cleanRuleMatches_props(4)[OF r d] nm
    by (simp add: objects_under_def fmlookup_fold_fmdrop)
  ultimately have "rule_cleaned x r"
    unfolding rule_cleaned_def using cleanRuleMatches_props(3)[OF r d] x by blast
  moreover from Cons.IH[OF rest] Cons.prems(2) have "list_all2 rule_cleaned rules rest"
    by simp
  ultimately show ?case
    using rm by simp
qed

lemma range_orders_alternating_order: "range_orders alternating_order"
  by (simp add: range_orders_def range_order_def alternating_order_def key_order_def
      fmdom'_alt_def)

lemma ex_policy_decoded: "decoded (JObj ex_policy)"
  unfolding ex_policy_def by code_simp

lemma ex_policy_cleaned: "cleanPolicy key_order ex_policy = Inr ex_cleaned"
  unfolding ex_policy_def ex_cleaned_def by code_simp

lemma ex_policy_cleaned_alternating: "cleanPolicy alternating_order ex_policy = Inr ex_cleaned"
  unfolding ex_policy_def ex_cleaned_def by code_simp

lemma cleanPolicy_without_rules:
  "fmlookup policyMap ''rules'' = None \<Longrightarrow> cleanPolicy ord policyMap = Inl TypeAssertionPanic"
  by (simp add: cleanPolicy_def fmlookup_fold_fmdrop)

lemma cleanRuleMatches_without_matches:
  "fmlookup ruleMap ''matches'' = None \<Longrightarrow> cleanRuleMatches ord i ruleMap = Inr ruleMap"
  by (simp add: cleanRuleMatches_def)

lemma cleanMatchFeatures_without_features:
  "fmlookup cleanedMatch ''features'' = None \<Longrightarrow>
     cleanMatchFeatures ord q cleanedMatch = Inr cleanedMatch"
  by (simp add: cleanMatchFeatures_def)

text \<open>
  The order is chosen per loop: two equal feature objects, next to each other in one
  \<^verbatim>\<open>features\<close> array, come out different when the runtime walks the first in one order and
  the second in the other. The object is \<^verbatim>\<open>{"a-b_c": 1, "a_b-c": 2}\<close>, whose two keys are
  standardized to the same key.
\<close>

lemma cleanFeatures_equal_objects_apart:
  "cleanFeatures alternating_order [] 0
     [JObj (fmap_of_list [(''a-b_c'', JNum 1), (''a_b-c'', JNum 2)]),
      JObj (fmap_of_list [(''a-b_c'', JNum 1), (''a_b-c'', JNum 2)])]
   = Inr [fmap_of_list [(''a_b_c'', JNum 2)], fmap_of_list [(''a_b_c'', JNum 1)]]"
  by code_simp

text \<open>
  C2. A rule without \<^verbatim>\<open>matches\<close> and a match without \<^verbatim>\<open>features\<close> are passed over (the
  two lemmas above: those assertions are of the two-value form), and so is a match without
  \<^verbatim>\<open>matches\<close>. A root without \<^verbatim>\<open>rules\<close> is not: indexing gives the nil interface, and
  the single-value assertion \<^verbatim>\<open>.([]interface{})\<close> on line 198 panics. Here cleanPolicy is
  run on the decoded object \<^verbatim>\<open>{"name": "p", "platform": "adn"}\<close>.
\<close>

theorem cleanPolicy_without_rules_panics:
  "cleanPolicy key_order (fmap_of_list [(''name'', JStr ''p''), (''platform'', JStr ''adn'')])
     = Inl TypeAssertionPanic"
  by code_simp

text \<open>
  C3, as the code has it. For every decoded policy tree that cleanPolicy normalizes, in
  whatever order the runtime walks each map: the root loses the keys id, @id, @type,
  policy_type, state, history, created_at, updated_at and no other key; the value under
  \<^verbatim>\<open>rules\<close>, a \<^verbatim>\<open>[]interface{}\<close> before, is the slice of the cleaned rule objects, one
  for each rule of the input, in order. A cleaned rule has lost the keys id, @id, @type,
  ordinal, created_at, updated_at and no other key (so state, history and policy_type stay on
  a rule that has them), its entries other than \<^verbatim>\<open>matches\<close> are unchanged, and it has as
  many match objects under \<^verbatim>\<open>matches\<close> as the rule had. No match object at any depth below
  a cleaned rule has the key ordinal, and no feature object under the \<^verbatim>\<open>features\<close> of such
  a match has it. Match and feature objects are counted whatever the type of the slice that
  holds them, so an array that the normalizer had passed over would count with all its
  objects.
\<close>

theorem cleanPolicy_removes_metadata:
  assumes "decoded (JObj policyMap)"
    and "cleanPolicy ord policyMap = Inr cleaned"
  shows "fmdom' cleaned = fmdom' policyMap
        - {''id'', ''@id'', ''@type'', ''policy_type'', ''state'', ''history'', ''created_at'',
           ''updated_at''}
    \<and> (\<exists>rules ruleMaps.
          fmlookup policyMap ''rules'' = Some (JArr rules)
        \<and> fmlookup cleaned ''rules'' = Some (JMaps ruleMaps)
        \<and> list_all2
            (\<lambda>rule r. \<exists>ruleMap. rule = JObj ruleMap
               \<and> fmdom' r = fmdom' ruleMap
                   - {''id'', ''@id'', ''@type'', ''ordinal'', ''created_at'', ''updated_at''}
               \<and> (\<forall>k. k \<notin> {''id'', ''@id'', ''@type'', ''ordinal'', ''created_at'',
                              ''updated_at'', ''matches''} \<longrightarrow>
                      fmlookup r k = fmlookup ruleMap k)
               \<and> length (objects_under ''matches'' r) = length (objects_under ''matches'' ruleMap)
               \<and> (\<forall>m \<in> matches_within (objects_under ''matches'' r).
                      ''ordinal'' \<notin> fmdom' m
                    \<and> (\<forall>f \<in> set (objects_under ''features'' m). ''ordinal'' \<notin> fmdom' f)))
            rules ruleMaps)"
proof -
  let ?p = "fold fmdrop policy_metadata policyMap"
  from assms(2) obtain rules ruleMaps where rules: "fmlookup ?p ''rules'' = Some (JArr rules)"
    and rm: "cleanRules ord 0 rules = Inr ruleMaps"
    and cl: "cleaned = fmupd ''rules'' (JMaps ruleMaps) ?p"
    by (auto simp: cleanPolicy_def Let_def split: option.splits jv.splits sum.splits)
  from rules have in_rules: "fmlookup policyMap ''rules'' = Some (JArr rules)"
    by (simp add: fmlookup_fold_fmdrop split: if_splits)
  then have "JArr rules \<in> fmran' policyMap"
    by (rule fmran'I)
  with assms(1) have "decoded (JArr rules)"
    by auto
  then have "\<forall>x \<in> set rules. decoded x"
    by simp
  with rm have "list_all2 rule_cleaned rules ruleMaps"
    by (rule cleanRules_cleaned)
  then have A: "list_all2
            (\<lambda>rule r. \<exists>ruleMap. rule = JObj ruleMap
               \<and> fmdom' r = fmdom' ruleMap
                   - {''id'', ''@id'', ''@type'', ''ordinal'', ''created_at'', ''updated_at''}
               \<and> (\<forall>k. k \<notin> {''id'', ''@id'', ''@type'', ''ordinal'', ''created_at'',
                              ''updated_at'', ''matches''} \<longrightarrow>
                      fmlookup r k = fmlookup ruleMap k)
               \<and> length (objects_under ''matches'' r) = length (objects_under ''matches'' ruleMap)
               \<and> (\<forall>m \<in> matches_within (objects_under ''matches'' r).
                      ''ordinal'' \<notin> fmdom' m
                    \<and> (\<forall>f \<in> set (objects_under ''features'' m). ''ordinal'' \<notin> fmdom' f)))
            rules ruleMaps"
    by (rule list_all2_mono) (auto simp: rule_cleaned_def rule_metadata_def ordinal_free_def)
  have B: "fmdom' cleaned = fmdom' policyMap
        - {''id'', ''@id'', ''@type'', ''policy_type'', ''state'', ''history'', ''created_at'',
           ''updated_at''}"
    unfolding cl using fmdom'I[OF in_rules]
    by (auto simp: fmdom'_fold_fmdrop policy_metadata_def)
  have C: "fmlookup cleaned ''rules'' = Some (JMaps ruleMaps)"
    unfolding cl by simp
  from A B C in_rules show ?thesis
    by blast
qed

theorem cleanPolicy_removes_metadata_witness:
  "decoded (JObj ex_policy) \<and> cleanPolicy alternating_order ex_policy = Inr ex_cleaned
   \<and> fmdom' ex_policy =
        {''id'', ''@id'', ''@type'', ''policy_type'', ''state'', ''history'', ''created_at'',
         ''updated_at'', ''name'', ''platform'', ''rules''}
   \<and> fmdom' ex_cleaned = {''name'', ''platform'', ''rules''}
   \<and> (\<exists>rule r m c f.
          fmlookup ex_policy ''rules'' = Some (JArr [JObj rule])
        \<and> fmlookup ex_cleaned ''rules'' = Some (JMaps [r])
        \<and> fmdom' rule =
            {''id'', ''@id'', ''@type'', ''ordinal'', ''created_at'', ''updated_at'', ''name'',
             ''matches''}
        \<and> fmdom' r = {''name'', ''matches''}
        \<and> objects_under ''matches'' r = [m]
        \<and> objects_under ''matches'' m = [c]
        \<and> objects_under ''features'' m = [f]
        \<and> ''ordinal'' \<notin> fmdom' m \<and> ''ordinal'' \<notin> fmdom' c \<and> ''ordinal'' \<notin> fmdom' f)"
proof -
  note T = cleanPolicy_removes_metadata[OF ex_policy_decoded ex_policy_cleaned_alternating]
  define rule where "rule = hd (objects_under ''rules'' ex_policy)"
  define r where "r = hd (objects_under ''rules'' ex_cleaned)"
  define m where "m = hd (objects_under ''matches'' r)"
  define c where "c = hd (objects_under ''matches'' m)"
  define f where "f = hd (objects_under ''features'' m)"
  have S1: "fmdom' ex_policy =
        {''id'', ''@id'', ''@type'', ''policy_type'', ''state'', ''history'', ''created_at'',
         ''updated_at'', ''name'', ''platform'', ''rules''}"
    unfolding ex_policy_def by code_simp
  have S2: "fmlookup ex_policy ''rules'' = Some (JArr [JObj rule])"
    unfolding rule_def ex_policy_def by code_simp
  have S3: "fmlookup ex_cleaned ''rules'' = Some (JMaps [r])"
    unfolding r_def ex_cleaned_def by code_simp
  have S4: "fmdom' rule =
            {''id'', ''@id'', ''@type'', ''ordinal'', ''created_at'', ''updated_at'', ''name'',
             ''matches''}"
    unfolding rule_def ex_policy_def by code_simp
  have S5: "objects_under ''matches'' r = [m]"
    unfolding m_def r_def ex_cleaned_def by code_simp
  have S6: "objects_under ''matches'' m = [c]"
    unfolding c_def m_def r_def ex_cleaned_def by code_simp
  have S7: "objects_under ''features'' m = [f]"
    unfolding f_def m_def r_def ex_cleaned_def by code_simp
  from T have D: "fmdom' ex_cleaned = {''name'', ''platform'', ''rules''}"
    unfolding S1 by auto
  from T S2 S3 have R: "fmdom' r = fmdom' rule
        - {''id'', ''@id'', ''@type'', ''ordinal'', ''created_at'', ''updated_at''}"
    and O: "\<forall>m \<in> matches_within (objects_under ''matches'' r).
              ''ordinal'' \<notin> fmdom' m
            \<and> (\<forall>f \<in> set (objects_under ''features'' m). ''ordinal'' \<notin> fmdom' f)"
    by auto
  from R have R': "fmdom' r = {''name'', ''matches''}"
    unfolding S4 by auto
  have mw: "m \<in> matches_within (objects_under ''matches'' r)"
    unfolding S5 by (rule matches_within.top) simp
  have cw: "c \<in> matches_within (objects_under ''matches'' r)"
    using mw by (rule matches_within.child) (simp add: S6)
  from O mw cw S7 have "''ordinal'' \<notin> fmdom' m" "''ordinal'' \<notin> fmdom' c"
    "''ordinal'' \<notin> fmdom' f"
    by auto
  with S1 S2 S3 S4 S5 S6 S7 D R' ex_policy_decoded ex_policy_cleaned_alternating
  show ?thesis
    by blast
qed

text \<open>
  C3 as stated does not hold at the rule level: the keys \<^verbatim>\<open>state\<close>, \<^verbatim>\<open>history\<close> and
  \<^verbatim>\<open>policy_type\<close> are deleted from the root only, and a rule object that has them keeps them.
\<close>

theorem cleanPolicy_rule_keeps_state:
  "cleanPolicy key_order (fmap_of_list
      [(''rules'', JArr [JObj (fmap_of_list
          [(''id'', JStr ''11''), (''state'', JStr ''locked''), (''history'', JArr []),
           (''policy_type'', JStr ''customer'')])])])
   = Inr (fmap_of_list
      [(''rules'', JMaps [fmap_of_list
          [(''state'', JStr ''locked''), (''history'', JArr []),
           (''policy_type'', JStr ''customer'')]])])"
  by code_simp


section \<open>Normalizing a normalized tree\<close>

lemma json_roundtrip_decoded: "decoded v \<Longrightarrow> json_roundtrip v = v"
proof (induction v)
  case (JArr xs)
  then show ?case by (simp add: map_idI)
next
  case (JObj m)
  have "fmmap json_roundtrip m = m"
  proof (rule fmap_ext)
    fix k
    show "fmlookup (fmmap json_roundtrip m) k = fmlookup m k"
    proof (cases "fmlookup m k")
      case None
      then show ?thesis by simp
    next
      case (Some v)
      then have "v \<in> fmran' m" by (rule fmran'I)
      with JObj have "json_roundtrip v = v" by simp
      with Some show ?thesis by simp
    qed
  qed
  then show ?case by simp
qed simp_all

lemma fmmap_json_roundtrip_decoded:
  fixes m :: obj
  assumes "\<forall>v \<in> fmran' m. decoded v"
  shows "fmmap json_roundtrip m = m"
proof -
  from assms have "decoded (JObj m)" by simp
  then have "json_roundtrip (JObj m) = JObj m" by (rule json_roundtrip_decoded)
  then show ?thesis by simp
qed

lemma settled_JArr_nonempty: "standardize_value (JArr xs) = JArr xs \<Longrightarrow> xs \<noteq> []"
  by (auto simp: standardize_value_def)

lemma standardize_value_objects:
  "ms \<noteq> [] \<Longrightarrow> standardize_value (JArr (map JObj ms)) = JArr (map JObj ms)"
  by (cases ms) (simp_all add: standardize_value_def)

lemma smf_nf_feature:
  assumes ro: "range_order ks m"
    and d: "\<forall>v \<in> fmran' m. decoded v"
    and o: "''ordinal'' \<notin> fmdom' m"
  shows "nf_feature (standardizeMatchFeature ks m)"
proof -
  have "Replace_hyphens k = k" if "k \<in> fmdom' (standardizeMatchFeature ks m)" for k
    using that unfolding smf_dom[OF ro] by (auto simp: Replace_hyphens_idem)
  moreover have "settled w" if "w \<in> fmran' (standardizeMatchFeature ks m)" for w
  proof -
    from that obtain k' where "fmlookup (standardizeMatchFeature ks m) k' = Some w"
      by (auto elim: fmran'E)
    from smf_values[OF ro this] obtain k v where "fmlookup m k = Some v"
      "w = standardize_value v"
      by blast
    with d show ?thesis
      by (auto simp: settled_def standardize_value_idem dest!: fmran'I
          intro: standardize_value_decoded)
  qed
  ultimately show ?thesis
    using smf_no_ordinal[OF o] unfolding nf_feature_def by blast
qed

lemma nf_feature_roundtrip:
  assumes "nf_feature f"
  shows "standardizeMatchFeature ks (fmdrop ''ordinal'' (fmmap json_roundtrip f)) = f"
proof -
  from assms have "fmmap json_roundtrip f = f"
    by (intro fmmap_json_roundtrip_decoded) (auto simp: nf_feature_def settled_def)
  moreover from assms have "fmdrop ''ordinal'' f = f"
    by (intro fmdrop_idle') (simp add: nf_feature_def)
  moreover from assms have "standardizeMatchFeature ks f = f"
    by (intro smf_fixed) (auto simp: nf_feature_def settled_def)
  ultimately show ?thesis
    by simp
qed

lemma cleanFeatures_roundtrip:
  "\<forall>f \<in> set fs. nf_feature f \<Longrightarrow>
     cleanFeatures ord' p j (map JObj (map (fmmap json_roundtrip) fs)) = Inr fs"
proof (induction fs arbitrary: j)
  case Nil
  show ?case by simp
next
  case (Cons f fs)
  then have "nf_feature f"
    and IH: "cleanFeatures ord' p (Suc j) (map JObj (map (fmmap json_roundtrip) fs)) = Inr fs"
    by simp_all
  from nf_feature_roundtrip[OF \<open>nf_feature f\<close>] IH show ?case
    by (simp del: fmfilter_alt_defs add: Let_def)
qed

lemma cleanFeatures_nf:
  assumes "range_orders ord"
  shows "cleanFeatures ord p j xs = Inr fs \<Longrightarrow> \<forall>x \<in> set xs. decoded x \<Longrightarrow>
     (\<forall>f \<in> set fs. nf_feature f) \<and> length fs = length xs"
proof (induction xs arbitrary: fs j)
  case Nil
  then show ?case by simp
next
  case (Cons x xs)
  from Cons.prems(1) obtain m rest where x: "x = JObj m"
    and rest: "cleanFeatures ord p (Suc j) xs = Inr rest"
    and fs: "fs = standardizeMatchFeature (ord (j # p) (fmdrop ''ordinal'' m))
               (fmdrop ''ordinal'' m) # rest"
    by (auto simp: Let_def split: jv.splits sum.splits)
  from Cons.prems(2) x have "decoded (JObj m)" by simp
  then have d: "\<forall>v \<in> fmran' (fmdrop ''ordinal'' m). decoded v"
    using fmran'_fold_fmdrop[of _ "[''ordinal'']" m] by auto
  from assms have "range_order (ord (j # p) (fmdrop ''ordinal'' m)) (fmdrop ''ordinal'' m)"
    by (simp add: range_orders_def)
  then have "nf_feature (standardizeMatchFeature (ord (j # p) (fmdrop ''ordinal'' m))
      (fmdrop ''ordinal'' m))"
    using d by (rule smf_nf_feature) simp
  with Cons.IH[OF rest] Cons.prems(2) fs show ?case
    by simp
qed


lemma cleanMatchFeatures_nf:
  assumes ro: "range_orders ord"
    and m4: "cleanMatchFeatures ord q m3 = Inr m4"
    and v: "fmlookup m4 ''features'' = Some v"
    and st: "\<And>w. fmlookup m3 ''features'' = Some w \<Longrightarrow> settled w"
  shows "(\<exists>fs. v = JMaps fs \<and> fs \<noteq> [] \<and> (\<forall>f \<in> set fs. nf_feature f))
    \<or> (settled v \<and> (\<forall>xs. v \<noteq> JArr xs))"
proof (cases "\<exists>xs. fmlookup m3 ''features'' = Some (JArr xs)")
  case True
  then obtain xs where xs: "fmlookup m3 ''features'' = Some (JArr xs)"
    by blast
  from st[OF xs] have "decoded (JArr xs)" "xs \<noteq> []"
    by (auto simp: settled_def dest: settled_JArr_nonempty)
  then have dx: "\<forall>x \<in> set xs. decoded x"
    by simp
  from m4 xs obtain fs where fs: "cleanFeatures ord (1 # q) 0 xs = Inr fs"
    and "m4 = fmupd ''features'' (JMaps fs) m3"
    by (auto simp: cleanMatchFeatures_def split: sum.splits)
  with v have "v = JMaps fs"
    by simp
  with cleanFeatures_nf[OF ro fs dx] \<open>xs \<noteq> []\<close> show ?thesis
    by auto
next
  case False
  with m4 have "m4 = m3"
    by (auto simp: cleanMatchFeatures_def split: option.splits jv.splits)
  with v False st show ?thesis
    by auto
qed

lemma cleanMatches_nf:
  assumes ro: "range_orders ord"
  shows "cleanMatches ord p i xs = Inr ms \<Longrightarrow> \<forall>x \<in> set xs. decoded x \<Longrightarrow>
     (\<forall>m \<in> set ms. nf_match m) \<and> length ms = length xs"
proof (induction xs arbitrary: ms p i rule: measure_induct_rule[where f = "size_list size"])
  case (less xs)
  show ?case
  proof (cases xs)
    case Nil
    with less.prems show ?thesis by simp
  next
    case (Cons x xs')
    from cleanMatches_Cons_InrD[OF less.prems(1)[unfolded Cons]]
    obtain m m4 rest where x: "x = JObj m" and ms: "ms = m4 # rest"
      and rest: "cleanMatches ord p (Suc i) xs' = Inr rest"
      and body: "(\<exists>children cs.
          fmlookup (standardizeMatchFeature (ord (i # p) (fmdrop ''ordinal'' m)) (fmdrop ''ordinal'' m))
            ''matches'' = Some (JArr children)
          \<and> cleanMatches ord (0 # i # p) 0 children = Inr cs
          \<and> cleanMatchFeatures ord (i # p) (fmupd ''matches'' (JMaps cs)
                (standardizeMatchFeature (ord (i # p) (fmdrop ''ordinal'' m)) (fmdrop ''ordinal'' m)))
              = Inr m4)
      \<or> ((\<forall>children.
             fmlookup (standardizeMatchFeature (ord (i # p) (fmdrop ''ordinal'' m))
               (fmdrop ''ordinal'' m)) ''matches'' \<noteq> Some (JArr children))
          \<and> cleanMatchFeatures ord (i # p)
               (standardizeMatchFeature (ord (i # p) (fmdrop ''ordinal'' m)) (fmdrop ''ordinal'' m))
              = Inr m4)"
      by blast
    define cm where "cm = standardizeMatchFeature (ord (i # p) (fmdrop ''ordinal'' m)) (fmdrop ''ordinal'' m)"
    note body' = body[folded cm_def]
    from less.prems(2) Cons x have dm: "decoded (JObj m)" and dxs': "\<forall>x \<in> set xs'. decoded x"
      by simp_all
    from dm have d1: "\<forall>v \<in> fmran' (fmdrop ''ordinal'' m). decoded v"
      using fmran'_fold_fmdrop[of _ "[''ordinal'']" m] by auto
    from ro have "range_order (ord (i # p) (fmdrop ''ordinal'' m)) (fmdrop ''ordinal'' m)"
      by (simp add: range_orders_def)
    then have nfcm: "nf_feature cm"
      unfolding cm_def using d1 by (rule smf_nf_feature) simp
    then have ocm: "''ordinal'' \<notin> fmdom' cm"
      and kcm: "\<And>k. k \<in> fmdom' cm \<Longrightarrow> Replace_hyphens k = k"
      and scm: "\<And>k v. fmlookup cm k = Some v \<Longrightarrow> settled v"
      by (auto simp: nf_feature_def dest: fmran'I)
    have hm: "Replace_hyphens ''matches'' = ''matches''"
      and hf: "Replace_hyphens ''features'' = ''features''"
      by (simp_all add: Replace_hyphens_def)
    have "size_list size xs' < size_list size xs"
      using Cons by simp
    from less.IH[OF this rest dxs']
    have IHrest: "\<forall>m \<in> set rest. nf_match m" "length rest = length xs'"
      by simp_all
    have head: "nf_match m4"
      using body'
    proof (elim disjE exE conjE)
      fix children cs
      assume look: "fmlookup cm ''matches'' = Some (JArr children)"
        and cs: "cleanMatches ord (0 # i # p) 0 children = Inr cs"
        and m4: "cleanMatchFeatures ord (i # p) (fmupd ''matches'' (JMaps cs) cm) = Inr m4"
      have "size_list size children < size_fmap (\<lambda>_. 0) size m"
        using look unfolding cm_def by (rule cleanMatches_child_size)
      then have small: "size_list size children < size_list size xs"
        using Cons x by (simp del: size_fmap_def)
      from scm[OF look] have "decoded (JArr children)" and ne: "children \<noteq> []"
        by (auto simp: settled_def dest: settled_JArr_nonempty)
      then have "\<forall>c \<in> set children. decoded c"
        by simp
      from less.IH[OF small cs this] have IHcs: "\<forall>c \<in> set cs. nf_match c" "length cs = length children"
        by simp_all
      with ne have csne: "cs \<noteq> []"
        by auto
      let ?m3 = "fmupd ''matches'' (JMaps cs) cm"
      from cleanMatchFeatures_props[OF m4]
      have dom4: "fmdom' m4 \<subseteq> insert ''features'' (insert ''matches'' (fmdom' cm))"
        and oth: "\<And>k. k \<noteq> ''features'' \<Longrightarrow> fmlookup m4 k = fmlookup ?m3 k"
        by (auto split: if_splits)
      show ?thesis
      proof (rule nf_matchI)
        show "''ordinal'' \<notin> fmdom' m4"
          using dom4 ocm by auto
        show "\<forall>k \<in> fmdom' m4. Replace_hyphens k = k"
          using dom4 kcm hm hf by auto
        show "\<forall>k v. fmlookup m4 k = Some v \<longrightarrow>
            (k = ''matches'' \<and> (\<exists>cs. v = JMaps cs \<and> cs \<noteq> [] \<and> (\<forall>c \<in> set cs. nf_match c)))
          \<or> (k = ''features'' \<and> (\<exists>fs. v = JMaps fs \<and> fs \<noteq> [] \<and> (\<forall>f \<in> set fs. nf_feature f)))
          \<or> (settled v \<and> (k = ''matches'' \<or> k = ''features'' \<longrightarrow> (\<forall>xs. v \<noteq> JArr xs)))"
        proof (intro allI impI)
          fix k v
          assume kv: "fmlookup m4 k = Some v"
          consider "k = ''features''" | "k = ''matches''" | "k \<noteq> ''features''" "k \<noteq> ''matches''"
            by blast
          then show "(k = ''matches'' \<and> (\<exists>cs. v = JMaps cs \<and> cs \<noteq> [] \<and> (\<forall>c \<in> set cs. nf_match c)))
            \<or> (k = ''features'' \<and> (\<exists>fs. v = JMaps fs \<and> fs \<noteq> [] \<and> (\<forall>f \<in> set fs. nf_feature f)))
            \<or> (settled v \<and> (k = ''matches'' \<or> k = ''features'' \<longrightarrow> (\<forall>xs. v \<noteq> JArr xs)))"
          proof cases
            case 1
            have "settled w" if "fmlookup ?m3 ''features'' = Some w" for w
              using that scm by simp
            from cleanMatchFeatures_nf[OF ro m4 kv[unfolded 1] this] 1 show ?thesis
              by blast
          next
            case 2
            with oth[of k] kv have "v = JMaps cs"
              by simp
            with 2 csne IHcs(1) show ?thesis
              by blast
          next
            case 3
            with oth[of k] kv have "fmlookup cm k = Some v"
              by simp
            from scm[OF this] 3 show ?thesis
              by blast
          qed
        qed
      qed
    next
      assume nolook: "\<forall>children. fmlookup cm ''matches'' \<noteq> Some (JArr children)"
        and m4: "cleanMatchFeatures ord (i # p) cm = Inr m4"
      from cleanMatchFeatures_props[OF m4]
      have dom4: "fmdom' m4 \<subseteq> insert ''features'' (fmdom' cm)"
        and oth: "\<And>k. k \<noteq> ''features'' \<Longrightarrow> fmlookup m4 k = fmlookup cm k"
        by (auto split: if_splits)
      show ?thesis
      proof (rule nf_matchI)
        show "''ordinal'' \<notin> fmdom' m4"
          using dom4 ocm by auto
        show "\<forall>k \<in> fmdom' m4. Replace_hyphens k = k"
          using dom4 kcm hf by auto
        show "\<forall>k v. fmlookup m4 k = Some v \<longrightarrow>
            (k = ''matches'' \<and> (\<exists>cs. v = JMaps cs \<and> cs \<noteq> [] \<and> (\<forall>c \<in> set cs. nf_match c)))
          \<or> (k = ''features'' \<and> (\<exists>fs. v = JMaps fs \<and> fs \<noteq> [] \<and> (\<forall>f \<in> set fs. nf_feature f)))
          \<or> (settled v \<and> (k = ''matches'' \<or> k = ''features'' \<longrightarrow> (\<forall>xs. v \<noteq> JArr xs)))"
        proof (intro allI impI)
          fix k v
          assume kv: "fmlookup m4 k = Some v"
          show "(k = ''matches'' \<and> (\<exists>cs. v = JMaps cs \<and> cs \<noteq> [] \<and> (\<forall>c \<in> set cs. nf_match c)))
            \<or> (k = ''features'' \<and> (\<exists>fs. v = JMaps fs \<and> fs \<noteq> [] \<and> (\<forall>f \<in> set fs. nf_feature f)))
            \<or> (settled v \<and> (k = ''matches'' \<or> k = ''features'' \<longrightarrow> (\<forall>xs. v \<noteq> JArr xs)))"
          proof (cases "k = ''features''")
            case True
            have "settled w" if "fmlookup cm ''features'' = Some w" for w
              using that scm by simp
            from cleanMatchFeatures_nf[OF ro m4 kv[unfolded True] this] True show ?thesis
              by blast
          next
            case False
            with oth[of k] kv have "fmlookup cm k = Some v"
              by simp
            from scm[OF this] this False nolook show ?thesis
              by auto
          qed
        qed
      qed
    qed
    with IHrest ms Cons show ?thesis
      by simp
  qed
qed


lemma cleanMatches_Cons:
  "cleanMatches ord p i (x # xs) =
     (case cleanMatches ord p i [x] of
        Inl e \<Rightarrow> Inl e
      | Inr ms \<Rightarrow>
          (case cleanMatches ord p (Suc i) xs of Inl e \<Rightarrow> Inl e | Inr rest \<Rightarrow> Inr (ms @ rest)))"
  by (simp add: Let_def append_cleaned_def split: jv.splits option.splits sum.splits)

lemma cleanMatches_map:
  "\<forall>m \<in> set ms. \<forall>i. cleanMatches ord p i [f m] = Inr [m] \<Longrightarrow>
     cleanMatches ord p i (map f ms) = Inr ms"
proof (induction ms arbitrary: i)
  case Nil
  show ?case by simp
next
  case (Cons m ms)
  then have "cleanMatches ord p i [f m] = Inr [m]"
    "cleanMatches ord p (Suc i) (map f ms) = Inr ms"
    by simp_all
  then show ?case
    by (subst list.map, subst cleanMatches_Cons) simp
qed

lemma cleanMatchFeatures_roundtrip:
  assumes "case fmlookup m ''features'' of
             None \<Rightarrow> fmlookup m3 ''features'' = None
           | Some (JMaps fs) \<Rightarrow>
               (\<forall>f \<in> set fs. nf_feature f)
               \<and> fmlookup m3 ''features'' = Some (JArr (map JObj (map (fmmap json_roundtrip) fs)))
           | Some v \<Rightarrow> fmlookup m3 ''features'' = Some v \<and> (\<forall>xs. v \<noteq> JArr xs)"
  shows "\<exists>m4. cleanMatchFeatures ord' q m3 = Inr m4
     \<and> (\<forall>k. fmlookup m4 k = (if k = ''features'' then fmlookup m ''features'' else fmlookup m3 k))"
proof (cases "fmlookup m ''features''")
  case None
  with assms show ?thesis
    by (simp add: cleanMatchFeatures_def)
next
  case (Some v)
  show ?thesis
  proof (cases "\<exists>fs. v = JMaps fs")
    case True
    then obtain fs where "v = JMaps fs" by blast
    with Some assms cleanFeatures_roundtrip[of fs ord' "1 # q" 0] show ?thesis
      by (simp add: cleanMatchFeatures_def)
  next
    case False
    with Some assms have "fmlookup m3 ''features'' = Some v" "\<forall>xs. v \<noteq> JArr xs"
      by (cases v; simp)+
    with Some show ?thesis
      by (auto simp: cleanMatchFeatures_def split: jv.splits)
  qed
qed


lemma cleanMatches_single:
  "cleanMatches ord p i [JObj r] =
     (case fmlookup (standardizeMatchFeature (ord (i # p) (fmdrop ''ordinal'' r))
                       (fmdrop ''ordinal'' r)) ''matches'' of
        Some (JArr children) \<Rightarrow>
          (case cleanMatches ord (0 # i # p) 0 children of
             Inl e \<Rightarrow> Inl e
           | Inr cs \<Rightarrow>
               append_cleaned
                 (cleanMatchFeatures ord (i # p) (fmupd ''matches'' (JMaps cs)
                    (standardizeMatchFeature (ord (i # p) (fmdrop ''ordinal'' r))
                       (fmdrop ''ordinal'' r))))
                 (Inr []))
      | _ \<Rightarrow>
          append_cleaned
            (cleanMatchFeatures ord (i # p)
               (standardizeMatchFeature (ord (i # p) (fmdrop ''ordinal'' r))
                  (fmdrop ''ordinal'' r)))
            (Inr []))"
  by (simp add: Let_def split: option.splits jv.splits sum.splits)

lemma settled_not_JMaps: "settled v \<Longrightarrow> v \<noteq> JMaps ms"
  by (auto simp: settled_def)

lemma settled_roundtrip: "settled v \<Longrightarrow> json_roundtrip v = v"
  by (simp add: settled_def json_roundtrip_decoded)

lemma cleanMatches_roundtrip_single:
  "nf_match m \<Longrightarrow> cleanMatches ord' p i [JObj (fmmap json_roundtrip m)] = Inr [m]"
proof (induction arbitrary: p i rule: nf_match.induct)
  case (nf_matchI m)
  define r where "r = fmmap json_roundtrip m"
  have lr: "fmlookup r k = map_option json_roundtrip (fmlookup m k)" for k
    by (simp add: r_def)
  have dr: "fmdom' r = fmdom' m"
    by (simp add: r_def)
  note vals = nf_matchI(3)[rule_format]
  have other: "fmlookup r k = fmlookup m k" if "k \<noteq> ''matches''" "k \<noteq> ''features''" for k
  proof (cases "fmlookup m k")
    case None
    then show ?thesis by (simp add: lr)
  next
    case (Some v)
    from vals[OF Some] that have "settled v" by blast
    with Some show ?thesis
      by (simp add: lr settled_roundtrip)
  qed
  have fixed_vals: "standardize_value w = w" if "w \<in> fmran' r" for w
  proof -
    from that obtain k where "fmlookup r k = Some w"
      by (auto elim: fmran'E)
    then obtain v where v: "fmlookup m k = Some v" and w: "w = json_roundtrip v"
      by (auto simp: lr)
    from vals[OF v] consider cs where "v = JMaps cs" "cs \<noteq> []" | "settled v"
      by blast
    then show ?thesis
    proof cases
      case 1
      then have "w = JArr (map JObj (map (fmmap json_roundtrip) cs))"
        "map (fmmap json_roundtrip) cs \<noteq> []"
        using w by simp_all
      then show ?thesis
        using standardize_value_objects[of "map (fmmap json_roundtrip) cs"] by blast
    next
      case 2
      then show ?thesis
        using w by (simp add: settled_roundtrip settled_def)
    qed
  qed
  have drop: "fmdrop ''ordinal'' r = r"
    using nf_matchI(1) dr by (intro fmdrop_idle') simp
  have fixed: "standardizeMatchFeature (ord' (i # p) r) r = r"
    using nf_matchI(2) dr fixed_vals by (intro smf_fixed) auto
  have "\<exists>m3. (case fmlookup r ''matches'' of
            Some (JArr children) \<Rightarrow>
              (case cleanMatches ord' (0 # i # p) 0 children of
                 Inl e \<Rightarrow> Inl e
               | Inr cs \<Rightarrow>
                   append_cleaned (cleanMatchFeatures ord' (i # p) (fmupd ''matches'' (JMaps cs) r))
                     (Inr []))
          | _ \<Rightarrow> append_cleaned (cleanMatchFeatures ord' (i # p) r) (Inr []))
        = append_cleaned (cleanMatchFeatures ord' (i # p) m3) (Inr [])
      \<and> (\<forall>k. fmlookup m3 k = (if k = ''matches'' then fmlookup m ''matches'' else fmlookup r k))"
  proof (cases "\<exists>cs. fmlookup m ''matches'' = Some (JMaps cs)")
    case True
    then obtain cs where cs: "fmlookup m ''matches'' = Some (JMaps cs)"
      by blast
    from vals[OF cs] have "\<forall>c \<in> set cs. \<forall>j. cleanMatches ord' (0 # i # p) j [JObj (fmmap json_roundtrip c)] = Inr [c]"
      by (auto dest: settled_not_JMaps)
    then have "cleanMatches ord' (0 # i # p) 0 (map (\<lambda>c. JObj (fmmap json_roundtrip c)) cs) = Inr cs"
      by (rule cleanMatches_map)
    then have "cleanMatches ord' (0 # i # p) 0 (map JObj (map (fmmap json_roundtrip) cs)) = Inr cs"
      by (simp add: comp_def)
    moreover have "fmlookup r ''matches'' = Some (JArr (map JObj (map (fmmap json_roundtrip) cs)))"
      using cs by (simp add: lr)
    ultimately show ?thesis
      using cs by (intro exI[of _ "fmupd ''matches'' (JMaps cs) r"]) simp
  next
    case False
    have same: "fmlookup r ''matches'' = fmlookup m ''matches''"
      and noarr: "\<forall>xs. fmlookup r ''matches'' \<noteq> Some (JArr xs)"
    proof -
      show "fmlookup r ''matches'' = fmlookup m ''matches''"
      proof (cases "fmlookup m ''matches''")
        case None
        then show ?thesis by (simp add: lr)
      next
        case (Some v)
        from vals[OF Some] False Some have "settled v" by auto
        with Some show ?thesis by (simp add: lr settled_roundtrip)
      qed
      then show "\<forall>xs. fmlookup r ''matches'' \<noteq> Some (JArr xs)"
        using vals[of "''matches''"] False by auto
    qed
    from noarr have "(case fmlookup r ''matches'' of
            Some (JArr children) \<Rightarrow>
              (case cleanMatches ord' (0 # i # p) 0 children of
                 Inl e \<Rightarrow> Inl e
               | Inr cs \<Rightarrow>
                   append_cleaned (cleanMatchFeatures ord' (i # p) (fmupd ''matches'' (JMaps cs) r))
                     (Inr []))
          | _ \<Rightarrow> append_cleaned (cleanMatchFeatures ord' (i # p) r) (Inr []))
        = append_cleaned (cleanMatchFeatures ord' (i # p) r) (Inr [])"
      by (auto split: option.splits jv.splits)
    with same show ?thesis
      by (intro exI[of _ r]) simp
  qed
  then obtain m3 where run: "cleanMatches ord' p i [JObj r] = append_cleaned (cleanMatchFeatures ord' (i # p) m3) (Inr [])"
    and l3: "\<And>k. fmlookup m3 k = (if k = ''matches'' then fmlookup m ''matches'' else fmlookup r k)"
    unfolding cleanMatches_single drop fixed by blast
  have "case fmlookup m ''features'' of
             None \<Rightarrow> fmlookup m3 ''features'' = None
           | Some (JMaps fs) \<Rightarrow>
               (\<forall>f \<in> set fs. nf_feature f)
               \<and> fmlookup m3 ''features'' = Some (JArr (map JObj (map (fmmap json_roundtrip) fs)))
           | Some v \<Rightarrow> fmlookup m3 ''features'' = Some v \<and> (\<forall>xs. v \<noteq> JArr xs)"
  proof (cases "fmlookup m ''features''")
    case None
    then show ?thesis by (simp add: l3 lr)
  next
    case (Some v)
    show ?thesis
    proof (cases "\<exists>fs. v = JMaps fs")
      case True
      then obtain fs where fs: "v = JMaps fs" by blast
      from vals[OF Some] fs have "\<forall>f \<in> set fs. nf_feature f"
        by (auto dest: settled_not_JMaps)
      with Some fs show ?thesis
        by (simp add: l3 lr)
    next
      case False
      from vals[OF Some] False have sv: "settled v" "\<forall>xs. v \<noteq> JArr xs"
        by auto
      with Some have "fmlookup m3 ''features'' = Some v"
        by (simp add: l3 lr settled_roundtrip)
      with Some False sv(2) show ?thesis
        by (cases v) simp_all
    qed
  qed
  from cleanMatchFeatures_roundtrip[OF this, of ord' "i # p"]
  obtain m4 where m4: "cleanMatchFeatures ord' (i # p) m3 = Inr m4"
    and l4: "\<And>k. fmlookup m4 k = (if k = ''features'' then fmlookup m ''features'' else fmlookup m3 k)"
    by blast
  have "m4 = m"
  proof (rule fmap_ext)
    fix k
    show "fmlookup m4 k = fmlookup m k"
      using other[of k] by (simp add: l4 l3)
  qed
  with run m4 show ?case
    by (simp add: r_def append_cleaned_def)
qed

lemma cleanMatches_roundtrip:
  "\<forall>m \<in> set ms. nf_match m \<Longrightarrow>
     cleanMatches ord' p i (map JObj (map (fmmap json_roundtrip) ms)) = Inr ms"
proof -
  assume "\<forall>m \<in> set ms. nf_match m"
  then have "\<forall>m \<in> set ms. \<forall>i. cleanMatches ord' p i [JObj (fmmap json_roundtrip m)] = Inr [m]"
    using cleanMatches_roundtrip_single by blast
  then have "cleanMatches ord' p i (map (\<lambda>c. JObj (fmmap json_roundtrip c)) ms) = Inr ms"
    by (rule cleanMatches_map)
  then show ?thesis
    by (simp add: comp_def)
qed


lemma fold_fmdrop_idle: "set ks \<inter> fmdom' m = {} \<Longrightarrow> fold fmdrop ks m = m"
proof (rule fmap_ext)
  fix k
  assume "set ks \<inter> fmdom' m = {}"
  then have "k \<in> set ks \<Longrightarrow> fmlookup m k = None"
    by (intro fmdom'_notD) blast
  then show "fmlookup (fold fmdrop ks m) k = fmlookup m k"
    by (simp add: fmlookup_fold_fmdrop)
qed

lemma cleanRuleMatches_nf:
  assumes ro: "range_orders ord"
    and r: "cleanRuleMatches ord i (fold fmdrop rule_metadata ruleMap) = Inr r"
    and d: "decoded (JObj ruleMap)"
  shows "nf_rule r"
proof -
  let ?r0 = "fold fmdrop rule_metadata ruleMap"
  have d0: "decoded v" if "fmlookup ?r0 k = Some v" for k v
    using that d by (auto dest!: fmran'I dest: fmran'_fold_fmdrop)
  then have d0': "\<forall>v \<in> fmran' ?r0. decoded v"
    by (auto elim: fmran'E)
  have nm: "''matches'' \<notin> set rule_metadata"
    by (simp add: rule_metadata_def)
  with cleanRuleMatches_props(1)[OF r d0']
  have keys: "\<forall>k \<in> set rule_metadata. k \<notin> fmdom' r"
    by (auto simp: fmdom'_fold_fmdrop)
  have vals: "(k = ''matches'' \<and> (\<exists>ms. v = JMaps ms \<and> (\<forall>m \<in> set ms. nf_match m)))
         \<or> (decoded v \<and> (k = ''matches'' \<longrightarrow> (\<forall>xs. v \<noteq> JArr xs)))"
    if kv: "fmlookup r k = Some v" for k v
  proof (cases "k = ''matches''")
    case False
    with cleanRuleMatches_props(2)[OF r d0', of k] kv d0 show ?thesis
      by auto
  next
    case True
    show ?thesis
    proof (cases "\<exists>xs. fmlookup ?r0 ''matches'' = Some (JArr xs)")
      case True
      then obtain xs where xs: "fmlookup ?r0 ''matches'' = Some (JArr xs)"
        by blast
      from d0[OF xs] have dx: "\<forall>x \<in> set xs. decoded x"
        by simp
      from r xs obtain ms where ms: "cleanMatches ord [i] 0 xs = Inr ms"
        and "r = fmupd ''matches'' (JMaps ms) ?r0"
        by (auto simp: cleanRuleMatches_def split: sum.splits)
      with kv \<open>k = ''matches''\<close> have "v = JMaps ms"
        by simp
      with cleanMatches_nf[OF ro ms dx] \<open>k = ''matches''\<close> show ?thesis
        by blast
    next
      case False
      with r have "r = ?r0"
        by (auto simp: cleanRuleMatches_def split: option.splits jv.splits)
      with kv d0[of k v] False \<open>k = ''matches''\<close> show ?thesis
        by auto
    qed
  qed
  from keys vals show ?thesis
    unfolding nf_rule_def by blast
qed

lemma cleanRules_nf:
  assumes ro: "range_orders ord"
  shows "cleanRules ord i rules = Inr ruleMaps \<Longrightarrow> \<forall>x \<in> set rules. decoded x \<Longrightarrow>
     \<forall>r \<in> set ruleMaps. nf_rule r"
proof (induction rules arbitrary: ruleMaps i)
  case Nil
  then show ?case by simp
next
  case (Cons x rules)
  from Cons.prems(1) obtain ruleMap r rest where x: "x = JObj ruleMap"
    and r: "cleanRuleMatches ord i (fold fmdrop rule_metadata ruleMap) = Inr r"
    and rest: "cleanRules ord (Suc i) rules = Inr rest"
    and rm: "ruleMaps = r # rest"
    by (auto simp: append_cleaned_def split: jv.splits sum.splits)
  from Cons.prems(2) x have "decoded (JObj ruleMap)" by simp
  with ro r have "nf_rule r"
    by (rule cleanRuleMatches_nf)
  moreover from Cons.IH[OF rest] Cons.prems(2) have "\<forall>r \<in> set rest. nf_rule r"
    by simp
  ultimately show ?case
    using rm by simp
qed

lemma cleanRuleMatches_roundtrip:
  assumes "nf_rule r"
  shows "cleanRuleMatches ord' i (fold fmdrop rule_metadata (fmmap json_roundtrip r)) = Inr r"
proof -
  define q where "q = fmmap json_roundtrip r"
  have lq: "fmlookup q k = map_option json_roundtrip (fmlookup r k)" for k
    by (simp add: q_def)
  from assms have keys: "\<forall>k \<in> set rule_metadata. k \<notin> fmdom' r"
    and vals: "\<And>k v. fmlookup r k = Some v \<Longrightarrow>
           (k = ''matches'' \<and> (\<exists>ms. v = JMaps ms \<and> (\<forall>m \<in> set ms. nf_match m)))
         \<or> (decoded v \<and> (k = ''matches'' \<longrightarrow> (\<forall>xs. v \<noteq> JArr xs)))"
    unfolding nf_rule_def by blast+
  have idle: "fold fmdrop rule_metadata q = q"
    using keys by (intro fold_fmdrop_idle) (auto simp: q_def)
  have other: "fmlookup q k = fmlookup r k" if "k \<noteq> ''matches''" for k
  proof (cases "fmlookup r k")
    case None
    then show ?thesis by (simp add: lq)
  next
    case (Some v)
    from vals[OF Some] that have "decoded v" by blast
    with Some show ?thesis
      by (simp add: lq json_roundtrip_decoded)
  qed
  have main: "cleanRuleMatches ord' i q = Inr r"
  proof (cases "\<exists>ms. fmlookup r ''matches'' = Some (JMaps ms)")
    case True
    then obtain ms where ms: "fmlookup r ''matches'' = Some (JMaps ms)"
      by blast
    from vals[OF ms] have "\<forall>m \<in> set ms. nf_match m"
      by auto
    then have "cleanMatches ord' [i] 0 (map JObj (map (fmmap json_roundtrip) ms)) = Inr ms"
      by (rule cleanMatches_roundtrip)
    moreover have "fmlookup q ''matches'' = Some (JArr (map JObj (map (fmmap json_roundtrip) ms)))"
      using ms by (simp add: lq)
    moreover have "fmupd ''matches'' (JMaps ms) q = r"
      by (rule fmap_ext) (use ms other in auto)
    ultimately show ?thesis
      by (simp add: cleanRuleMatches_def)
  next
    case False
    have same: "fmlookup q ''matches'' = fmlookup r ''matches''"
    proof (cases "fmlookup r ''matches''")
      case None
      then show ?thesis by (simp add: lq)
    next
      case (Some v)
      from vals[OF Some] False Some have "decoded v" by auto
      with Some show ?thesis by (simp add: lq json_roundtrip_decoded)
    qed
    have "q = r"
      by (rule fmap_ext) (use same other in metis)
    moreover have "\<forall>xs. fmlookup r ''matches'' \<noteq> Some (JArr xs)"
      using vals[of "''matches''"] False by auto
    ultimately show ?thesis
      by (auto simp: cleanRuleMatches_def split: option.splits jv.splits)
  qed
  have "cleanRuleMatches ord' i (fold fmdrop rule_metadata q) = Inr r"
    by (simp only: idle main)
  then show ?thesis
    by (simp only: q_def)
qed

lemma cleanRules_roundtrip:
  "\<forall>r \<in> set rs. nf_rule r \<Longrightarrow>
     cleanRules ord' i (map JObj (map (fmmap json_roundtrip) rs)) = Inr rs"
proof (induction rs arbitrary: i)
  case Nil
  show ?case by simp
next
  case (Cons r rs)
  then have "nf_rule r"
    and IH: "cleanRules ord' (Suc i) (map JObj (map (fmmap json_roundtrip) rs)) = Inr rs"
    by simp_all
  from cleanRuleMatches_roundtrip[OF \<open>nf_rule r\<close>, of ord' i] IH show ?case
    by (simp add: append_cleaned_def)
qed

lemma ex_cleaned_again: "cleanPolicy key_order ex_cleaned = Inl TypeAssertionPanic"
  unfolding ex_cleaned_def by code_simp

text \<open>
  C1, as the code has it. Let cleanPolicy normalize a decoded policy tree, the order of every
  \<^verbatim>\<open>range\<close> loop of the run being chosen on its own, each one an order that produces every
  key of its map. When the result is marshalled and unmarshalled, as the provider does with
  every tree between two runs of the normalizer, a second run of cleanPolicy on it succeeds,
  whatever the orders of its loops are, and ends with the very tree the first run ended with.
\<close>

theorem cleanPolicy_idempotent_after_roundtrip:
  assumes "decoded (JObj policyMap)"
    and "range_orders ord"
    and "cleanPolicy ord policyMap = Inr cleaned"
  shows "cleanPolicy ord' (fmmap json_roundtrip cleaned) = Inr cleaned"
proof -
  let ?p = "fold fmdrop policy_metadata policyMap"
  from assms(3) obtain rules ruleMaps where rules: "fmlookup ?p ''rules'' = Some (JArr rules)"
    and rm: "cleanRules ord 0 rules = Inr ruleMaps"
    and cl: "cleaned = fmupd ''rules'' (JMaps ruleMaps) ?p"
    by (auto simp: cleanPolicy_def Let_def split: option.splits jv.splits sum.splits)
  have dp: "decoded v" if "fmlookup ?p k = Some v" for k v
    using that assms(1) by (auto dest!: fmran'I dest: fmran'_fold_fmdrop)
  from dp[OF rules] have "\<forall>x \<in> set rules. decoded x"
    by simp
  with assms(2) rm have "\<forall>r \<in> set ruleMaps. nf_rule r"
    by (rule cleanRules_nf)
  then have again: "cleanRules ord' 0 (map JObj (map (fmmap json_roundtrip) ruleMaps)) = Inr ruleMaps"
    by (rule cleanRules_roundtrip)
  define q where "q = fmmap json_roundtrip cleaned"
  have lq: "fmlookup q k = map_option json_roundtrip (fmlookup cleaned k)" for k
    by (simp add: q_def)
  have "set policy_metadata \<inter> fmdom' q = {}"
    unfolding q_def cl by (auto simp: fmdom'_fold_fmdrop policy_metadata_def)
  then have idle: "fold fmdrop policy_metadata q = q"
    by (rule fold_fmdrop_idle)
  have qr: "fmlookup q ''rules'' = Some (JArr (map JObj (map (fmmap json_roundtrip) ruleMaps)))"
    by (simp add: lq cl)
  have "fmupd ''rules'' (JMaps ruleMaps) q = cleaned"
  proof (rule fmap_ext)
    fix k
    show "fmlookup (fmupd ''rules'' (JMaps ruleMaps) q) k = fmlookup cleaned k"
    proof (cases "k = ''rules''")
      case True
      then show ?thesis by (simp add: cl)
    next
      case False
      show ?thesis
      proof (cases "fmlookup ?p k")
        case None
        with False show ?thesis by (simp add: lq cl)
      next
        case (Some v)
        from dp[OF Some] have "json_roundtrip v = v"
          by (rule json_roundtrip_decoded)
        with False Some show ?thesis by (simp add: lq cl)
      qed
    qed
  qed
  with again qr idle show ?thesis
    by (simp add: cleanPolicy_def q_def[symmetric])
qed

theorem cleanPolicy_idempotent_after_roundtrip_witness:
  "decoded (JObj ex_policy) \<and> range_orders alternating_order
   \<and> cleanPolicy alternating_order ex_policy = Inr ex_cleaned
   \<and> cleanPolicy key_order (fmmap json_roundtrip ex_cleaned) = Inr ex_cleaned"
  using cleanPolicy_idempotent_after_roundtrip[OF ex_policy_decoded
      range_orders_alternating_order ex_policy_cleaned_alternating, of key_order]
    ex_policy_decoded range_orders_alternating_order ex_policy_cleaned_alternating
  by simp

text \<open>
  C1 as stated does not hold: the slices cleanPolicy stores are
  \<^verbatim>\<open>[]map[string]interface{}\<close>, which the assertion \<^verbatim>\<open>.([]interface{})\<close> on line 198
  rejects, so a second run of cleanPolicy on the map the first run has left panics.
\<close>

theorem cleanPolicy_twice_panics:
  "cleanPolicy key_order ex_policy = Inr ex_cleaned
   \<and> cleanPolicy key_order ex_cleaned = Inl TypeAssertionPanic"
  using ex_policy_cleaned ex_cleaned_again by simp


section \<open>Properties of the token data source\<close>

lemma CheckForRetry_eq:
  "CheckForRetry ToLower metadata statusresp =
     (case statusresp of
        None \<Rightarrow> Inl NilPointerPanic
      | Some status \<Rightarrow>
          if ToLower (Status status) = ''processing'' then Inr True
          else (case metadata of
                  [] \<Rightarrow> Inr True
                | None # _ \<Rightarrow> Inl NilPointerPanic
                | Some m0 # _ \<Rightarrow>
                    Inr (case DcvToken m0 of None \<Rightarrow> True | Some t \<Rightarrow> Token t = [])))"
  by (auto simp: CheckForRetry_def index0_def deref_def split: list.splits option.splits)

lemma CheckForRetry_False:
  assumes "CheckForRetry ToLower metadata statusresp = Inr False"
  shows "\<exists>status m0 rest t. statusresp = Some status \<and> metadata = Some m0 # rest
           \<and> DcvToken m0 = Some t \<and> Token t \<noteq> []"
  using assms unfolding CheckForRetry_eq
  by (auto split: list.splits option.splits if_splits)

lemma ascii_ToLower_Processing: "ascii_ToLower ''Processing'' = ''processing''"
  by code_simp

lemma ascii_ToLower_complete: "ascii_ToLower ''complete'' = ''complete''"
  by code_simp

lemma poller_started_ex: "poller_started (ex_env w) (ex_cfg b) 1200 42"
  by (simp add: poller_started_def ex_env_def ex_cfg_def)

text \<open>
  C5, as the code has it. Let the status response not be a nil pointer and the first entry of
  the domain metadata, when there is one, not be a nil pointer. Then CheckForRetry returns, and
  it returns true exactly when the lower-cased certificate status is "processing", or the
  domain metadata is empty, or the first domain has no token object, or its token string is
  empty; otherwise it returns false. On a nil status response it panics; on a nil first entry
  it returns true when the status is "processing" and panics otherwise. When it returns false
  (the certificate being of validation type DV with no workflow error, both queries answered),
  the read sets the value to the first domain's token and the identifier to the time stamp,
  and returns without an error after one round of queries.
\<close>

theorem CheckForRetry_decides_read:
  "(metadata = [] \<or> (\<exists>m0 rest. metadata = Some m0 # rest) \<longrightarrow>
      CheckForRetry ToLower metadata (Some status) =
        Inr (ToLower (Status status) = ''processing''
             \<or> metadata = []
             \<or> (\<exists>m0 rest. metadata = Some m0 # rest \<and> DcvToken m0 = None)
             \<or> (\<exists>m0 rest t. metadata = Some m0 # rest \<and> DcvToken m0 = Some t \<and> Token t = [])))
   \<and> CheckForRetry ToLower metadata None = Inl NilPointerPanic
   \<and> CheckForRetry ToLower (None # others) (Some status) =
        (if ToLower (Status status) = ''processing'' then Inr True else Inl NilPointerPanic)
   \<and> (poller_started env cfg timeout certID
        \<and> CertificateGet (api env certID 0) = Inr (Some resp)
        \<and> CertificateGetCertificateStatus (api env certID 0) = Inr statusresp
        \<and> ValidationType resp = CdnProvidedCertificateValidationTypeDV
        \<and> WorkflowErrorMessage resp = []
        \<and> GetDomainMetadata (api env certID 0) = metadata
        \<and> CheckForRetry (strings_ToLower env) metadata statusresp = Inr False
      \<longrightarrow> (\<exists>m0 rest t. metadata = Some m0 # rest \<and> DcvToken m0 = Some t
            \<and> DataSourceDNSTXTTokenRead env cfg d =
                Inr (None, d\<lparr>d_value := Some (Token t), d_Id := GetUnixTimeStamp env\<rparr>, 1)))"
proof (intro conjI impI)
  assume "metadata = [] \<or> (\<exists>m0 rest. metadata = Some m0 # rest)"
  then show "CheckForRetry ToLower metadata (Some status) =
        Inr (ToLower (Status status) = ''processing''
             \<or> metadata = []
             \<or> (\<exists>m0 rest. metadata = Some m0 # rest \<and> DcvToken m0 = None)
             \<or> (\<exists>m0 rest t. metadata = Some m0 # rest \<and> DcvToken m0 = Some t \<and> Token t = []))"
    unfolding CheckForRetry_eq by (auto split: option.splits)
next
  show "CheckForRetry ToLower metadata None = Inl NilPointerPanic"
    unfolding CheckForRetry_eq by simp
next
  show "CheckForRetry ToLower (None # others) (Some status) =
        (if ToLower (Status status) = ''processing'' then Inr True else Inl NilPointerPanic)"
    unfolding CheckForRetry_eq by simp
next
  assume a: "poller_started env cfg timeout certID
        \<and> CertificateGet (api env certID 0) = Inr (Some resp)
        \<and> CertificateGetCertificateStatus (api env certID 0) = Inr statusresp
        \<and> ValidationType resp = CdnProvidedCertificateValidationTypeDV
        \<and> WorkflowErrorMessage resp = []
        \<and> GetDomainMetadata (api env certID 0) = metadata
        \<and> CheckForRetry (strings_ToLower env) metadata statusresp = Inr False"
  then have no: "CheckForRetry (strings_ToLower env) metadata statusresp = Inr False"
    by blast
  from CheckForRetry_False[OF this]
  obtain m0 rest t where md: "metadata = Some m0 # rest" "DcvToken m0 = Some t"
    by blast
  from a no md have "read_attempt (strings_ToLower env) (wait_until_available cfg)
      (GetUnixTimeStamp env) (api env certID 0) d
      = Inr (None, d\<lparr>d_value := Some (Token t), d_Id := GetUnixTimeStamp env\<rparr>)"
    by (simp add: read_attempt_def index0_def deref_def)
  with a have "DataSourceDNSTXTTokenRead env cfg d =
      Inr (None, d\<lparr>d_value := Some (Token t), d_Id := GetUnixTimeStamp env\<rparr>, 1)"
    by (simp add: DataSourceDNSTXTTokenRead_def poller_started_def)
  with md show "\<exists>m0 rest t. metadata = Some m0 # rest \<and> DcvToken m0 = Some t
            \<and> DataSourceDNSTXTTokenRead env cfg d =
                Inr (None, d\<lparr>d_value := Some (Token t), d_Id := GetUnixTimeStamp env\<rparr>, 1)"
    by blast
qed

theorem CheckForRetry_decides_read_witness:
  "CheckForRetry ascii_ToLower ex_token (Some \<lparr>Status = ''Processing''\<rparr>) = Inr True
   \<and> CheckForRetry ascii_ToLower ex_token (Some \<lparr>Status = ''complete''\<rparr>) = Inr False
   \<and> CheckForRetry ascii_ToLower [] (Some \<lparr>Status = ''complete''\<rparr>) = Inr True
   \<and> CheckForRetry ascii_ToLower [Some \<lparr>DcvToken = None\<rparr>] (Some \<lparr>Status = ''complete''\<rparr>)
       = Inr True
   \<and> CheckForRetry ascii_ToLower [Some \<lparr>DcvToken = Some \<lparr>Token = []\<rparr>\<rparr>]
       (Some \<lparr>Status = ''complete''\<rparr>) = Inr True
   \<and> DataSourceDNSTXTTokenRead (ex_env (\<lambda>i. ex_responses ''DV'' ''complete'' ex_token))
        (ex_cfg True) ex_data
      = Inr (None, \<lparr>d_value = Some ''XYZ'', d_Id = ''1700000000''\<rparr>, 1)"
proof -
  let ?env = "ex_env (\<lambda>i. ex_responses ''DV'' ''complete'' ex_token)"
  have p: "CheckForRetry ascii_ToLower ex_token (Some \<lparr>Status = ''Processing''\<rparr>) = Inr True"
    using CheckForRetry_decides_read[where ToLower = ascii_ToLower and metadata = ex_token
        and status = "\<lparr>Status = ''Processing''\<rparr>"]
    by (simp add: ascii_ToLower_Processing ex_token_def)
  have c: "CheckForRetry ascii_ToLower ex_token (Some \<lparr>Status = ''complete''\<rparr>) = Inr False"
    using CheckForRetry_decides_read[where ToLower = ascii_ToLower and metadata = ex_token
        and status = "\<lparr>Status = ''complete''\<rparr>"]
    by (simp add: ascii_ToLower_complete ex_token_def)
  have e: "CheckForRetry ascii_ToLower [] (Some \<lparr>Status = ''complete''\<rparr>) = Inr True"
    using CheckForRetry_decides_read[where ToLower = ascii_ToLower and metadata = "[]"
        and status = "\<lparr>Status = ''complete''\<rparr>"]
    by simp
  have n: "CheckForRetry ascii_ToLower [Some \<lparr>DcvToken = None\<rparr>]
      (Some \<lparr>Status = ''complete''\<rparr>) = Inr True"
    using CheckForRetry_decides_read[where ToLower = ascii_ToLower
        and metadata = "[Some \<lparr>DcvToken = None\<rparr>]" and status = "\<lparr>Status = ''complete''\<rparr>"]
    by simp
  have z: "CheckForRetry ascii_ToLower [Some \<lparr>DcvToken = Some \<lparr>Token = []\<rparr>\<rparr>]
      (Some \<lparr>Status = ''complete''\<rparr>) = Inr True"
    using CheckForRetry_decides_read[where ToLower = ascii_ToLower
        and metadata = "[Some \<lparr>DcvToken = Some \<lparr>Token = []\<rparr>\<rparr>]"
        and status = "\<lparr>Status = ''complete''\<rparr>"]
    by simp
  have "\<exists>m0 rest t. ex_token = Some m0 # rest \<and> DcvToken m0 = Some t
      \<and> DataSourceDNSTXTTokenRead ?env (ex_cfg True) ex_data =
          Inr (None, ex_data\<lparr>d_value := Some (Token t), d_Id := GetUnixTimeStamp ?env\<rparr>, 1)"
    using CheckForRetry_decides_read[where ToLower = ascii_ToLower and metadata = ex_token
        and statusresp = "Some \<lparr>Status = ''complete''\<rparr>" and env = ?env and cfg = "ex_cfg True"
        and timeout = 1200 and certID = 42
        and resp = "\<lparr>ValidationType = ''DV'', WorkflowErrorMessage = []\<rparr>" and d = ex_data]
      c poller_started_ex[of "\<lambda>i. ex_responses ''DV'' ''complete'' ex_token" True]
    by (simp add: ex_env_def ex_responses_def CdnProvidedCertificateValidationTypeDV_def)
  then have "DataSourceDNSTXTTokenRead ?env (ex_cfg True) ex_data
      = Inr (None, \<lparr>d_value = Some ''XYZ'', d_Id = ''1700000000''\<rparr>, 1)"
    by (auto simp: ex_token_def ex_data_def ex_env_def)
  with p c e n z show ?thesis
    by blast
qed

text \<open>
  C5 as stated does not hold for every status response and metadata list the function can be
  given: with an empty metadata list and a nil status response the claim has CheckForRetry
  return true, and \<^verbatim>\<open>statusresp.Status\<close> panics; with a status other than "processing" and
  a metadata list whose first entry is nil, \<^verbatim>\<open>metadata[0].DcvToken\<close> panics.
\<close>

theorem CheckForRetry_nil_pointer_panics:
  "CheckForRetry ascii_ToLower [] None = Inl NilPointerPanic
   \<and> CheckForRetry ascii_ToLower [None] (Some \<lparr>Status = ''complete''\<rparr>) = Inl NilPointerPanic"
  by (simp add: CheckForRetry_def index0_def deref_def ascii_ToLower_complete)

text \<open>
  C6. When the certificate's validation type is not DV, the first round ends in a
  non-retryable error, whether \<^verbatim>\<open>wait_until_available\<close> is set or not: the read returns that
  error after one round of queries and leaves the resource data as it was. The error is the
  message about the validation type unless the status query has failed before the test.
\<close>

theorem non_DV_is_fatal_on_first_query:
  assumes "poller_started env cfg timeout certID"
    and "CertificateGet (api env certID 0) = Inr (Some resp)"
    and "ValidationType resp \<noteq> CdnProvidedCertificateValidationTypeDV"
  shows "\<exists>e. (\<forall>retry.
             read_attempt (strings_ToLower env) retry (GetUnixTimeStamp env) (api env certID 0) d
               = Inr (Some (NonRetryableError e), d)
             \<and> DataSourceDNSTXTTokenRead env (cfg\<lparr>wait_until_available := retry\<rparr>) d
               = Inr (Some e, d, 1))
         \<and> (\<forall>statusresp. CertificateGetCertificateStatus (api env certID 0) = Inr statusresp
               \<longrightarrow> e = ''certificate must have validation type DV'')"
proof (cases "CertificateGetCertificateStatus (api env certID 0)")
  case (Inl err)
  with assms show ?thesis
    by (intro exI[of _ "''error while retrieving certificate details: '' @ err"])
      (simp add: DataSourceDNSTXTTokenRead_def poller_started_def read_attempt_def)
next
  case (Inr statusresp)
  with assms show ?thesis
    by (intro exI[of _ "''certificate must have validation type DV''"])
      (simp add: DataSourceDNSTXTTokenRead_def poller_started_def read_attempt_def deref_def)
qed

theorem non_DV_is_fatal_on_first_query_witness:
  "DataSourceDNSTXTTokenRead (ex_env (\<lambda>i. ex_responses ''OV'' ''complete'' ex_token))
     (ex_cfg True) ex_data
     = Inr (Some ''certificate must have validation type DV'', ex_data, 1)
   \<and> DataSourceDNSTXTTokenRead (ex_env (\<lambda>i. ex_responses ''OV'' ''complete'' ex_token))
     (ex_cfg False) ex_data
     = Inr (Some ''certificate must have validation type DV'', ex_data, 1)"
proof -
  let ?env = "ex_env (\<lambda>i. ex_responses ''OV'' ''complete'' ex_token)"
  have ne: "ValidationType \<lparr>ValidationType = ''OV'', WorkflowErrorMessage = []\<rparr>
      \<noteq> CdnProvidedCertificateValidationTypeDV"
    by (simp add: CdnProvidedCertificateValidationTypeDV_def)
  have get: "CertificateGet (api ?env 42 0)
      = Inr (Some \<lparr>ValidationType = ''OV'', WorkflowErrorMessage = []\<rparr>)"
    by (simp add: ex_env_def ex_responses_def)
  have st: "CertificateGetCertificateStatus (api ?env 42 0)
      = Inr (Some \<lparr>Status = ''complete''\<rparr>)"
    by (simp add: ex_env_def ex_responses_def)
  from non_DV_is_fatal_on_first_query[OF poller_started_ex[of _ True] get ne, of ex_data] st
  obtain e where e: "e = ''certificate must have validation type DV''"
    and r: "\<And>retry. DataSourceDNSTXTTokenRead ?env (ex_cfg True\<lparr>wait_until_available := retry\<rparr>)
        ex_data = Inr (Some e, ex_data, 1)"
    by blast
  from r[of True] r[of False] e show ?thesis
    by (simp add: ex_cfg_def)
qed

text \<open>
  C7. When needsRetry is true and \<^verbatim>\<open>wait_until_available\<close> is false, the read returns no
  error and leaves both the value and the identifier as they were, after exactly one round of
  queries.
\<close>

theorem no_retry_early_exit:
  assumes "poller_started env cfg timeout certID"
    and "\<not> wait_until_available cfg"
    and "CertificateGet (api env certID 0) = Inr (Some resp)"
    and "CertificateGetCertificateStatus (api env certID 0) = Inr statusresp"
    and "ValidationType resp = CdnProvidedCertificateValidationTypeDV"
    and "WorkflowErrorMessage resp = []"
    and "CheckForRetry (strings_ToLower env) (GetDomainMetadata (api env certID 0)) statusresp
           = Inr True"
  shows "DataSourceDNSTXTTokenRead env cfg d = Inr (None, d, 1)"
  using assms
  by (simp add: DataSourceDNSTXTTokenRead_def poller_started_def read_attempt_def deref_def)


theorem no_retry_early_exit_witness:
  "poller_started (ex_env (\<lambda>i. ex_responses ''DV'' ''Processing'' [])) (ex_cfg False) 1200 42
   \<and> CheckForRetry ascii_ToLower [] (Some \<lparr>Status = ''Processing''\<rparr>) = Inr True
   \<and> DataSourceDNSTXTTokenRead (ex_env (\<lambda>i. ex_responses ''DV'' ''Processing'' []))
       (ex_cfg False) ex_data
     = Inr (None, ex_data, 1)"
proof -
  let ?env = "ex_env (\<lambda>i. ex_responses ''DV'' ''Processing'' [])"
  have a: "\<not> wait_until_available (ex_cfg False)"
    by (simp add: ex_cfg_def)
  have get: "CertificateGet (api ?env 42 0)
      = Inr (Some \<lparr>ValidationType = ''DV'', WorkflowErrorMessage = []\<rparr>)"
    by (simp add: ex_env_def ex_responses_def)
  have st: "CertificateGetCertificateStatus (api ?env 42 0)
      = Inr (Some \<lparr>Status = ''Processing''\<rparr>)"
    by (simp add: ex_env_def ex_responses_def)
  have dv: "ValidationType \<lparr>ValidationType = ''DV'', WorkflowErrorMessage = []\<rparr>
      = CdnProvidedCertificateValidationTypeDV"
    by (simp add: CdnProvidedCertificateValidationTypeDV_def)
  have wf: "WorkflowErrorMessage \<lparr>ValidationType = ''DV'', WorkflowErrorMessage = []\<rparr> = []"
    by simp
  have c: "CheckForRetry ascii_ToLower [] (Some \<lparr>Status = ''Processing''\<rparr>) = Inr True"
    by (simp add: CheckForRetry_def deref_def)
  then have c': "CheckForRetry (strings_ToLower ?env) (GetDomainMetadata (api ?env 42 0))
      (Some \<lparr>Status = ''Processing''\<rparr>) = Inr True"
    by (simp add: ex_env_def ex_responses_def)
  from no_retry_early_exit[OF poller_started_ex[of _ False] a get st dv wf c', of ex_data] c
    poller_started_ex[of "\<lambda>i. ex_responses ''DV'' ''Processing'' []" False]
  show ?thesis
    by blast
qed


section \<open>Properties of the policy resource\<close>

lemma cleanPolicyForTerrafomState_without_rules:
  assumes "val \<noteq> []"
    and "json_Unmarshal env val = UnmarshalledObject m"
    and "fmlookup m ''rules'' = None"
  shows "cleanPolicyForTerrafomState env val = Inl TypeAssertionPanic"
  using assms by (simp add: cleanPolicyForTerrafomState_def cleanPolicy_without_rules)

text \<open>
  C9. A delete of a policy whose platform is \<open>P\<close> fetches the policy and then submits, with
  \<^verbatim>\<open>AddPolicy\<close>, the placeholder text with \<open>P\<close> in its \<^verbatim>\<open>platform\<close> field and
  \<^verbatim>\<open>locked\<close> in its \<^verbatim>\<open>state\<close> field; the only call that can follow is the
  \<^verbatim>\<open>DeployPolicy\<close> of the policy just added. When adding and deploying succeed, the delete
  reports no error and has cleared the stored identifier. The text is the format with \<open>P\<close>
  pasted in as it is.
\<close>

theorem ResourcePolicyDelete_deploys_placeholder:
  assumes "Atoi env (Id d) = Inr policyID"
    and "GetPolicy env (account_number d) (customeruserid d) (portaltypeid d) policyID
           = Inr policyMap"
    and "fmlookup policyMap ''platform'' = Some (JStr P)"
  shows \<open>\<exists>outcome d' deploys.
      ResourcePolicyDelete env d = (Inr outcome, d')
      \<and> calls d' = calls d
          @ [GetPolicyCall (account_number d) (customeruserid d) (portaltypeid d) policyID,
             AddPolicyCall
               (''{"@type":"policy-create","name":"Terraform Placeholder - '' @ time_Now env
                @ ''","platform":"'' @ P
                @ ''","rules":[{"@type":"rule-create","description":"Placeholder rule created by ''
                @ ''the Edgecast Terraform Provider","matches":[{"features":[{"type":''
                @ ''"feature.comment","value":"Empty policy created on '' @ time_Now env
                @ ''"}],"ordinal":1,"type":"match.always"}],"name":"Placeholder Rule"}],''
                @ ''"state":"locked"}'')
               (account_number d) (portaltypeid d) (customeruserid d)]
          @ deploys
      \<and> (deploys = []
           \<or> (\<exists>request. deploys = [DeployPolicyCall request (account_number d) (portaltypeid d)
                                      (customeruserid d)]))
      \<and> (\<forall>newID n deployID.
            AddPolicy env (emptyPolicyFormat (time_Now env) P (time_Now env)) (account_number d)
              (portaltypeid d) (customeruserid d) = Inr newID
            \<and> Atoi env newID = Inr n
            \<and> DeployPolicy env
                \<lparr>Message = ''Auto-submitted policy'', PolicyID = n, Environment = deploy_to d\<rparr>
                (account_number d) (portaltypeid d) (customeruserid d) = Inr deployID
            \<longrightarrow> outcome = None \<and> Id d' = []
              \<and> deploys = [DeployPolicyCall
                    \<lparr>Message = ''Auto-submitted policy'', PolicyID = n,
                       Environment = deploy_to d\<rparr>
                    (account_number d) (portaltypeid d) (customeruserid d)])\<close>
  using assms
  by (auto simp: ResourcePolicyDelete_def getPolicy_def addPolicy_def Let_def
      emptyPolicyFormat_def getDeployRequestData_def split: sum.splits)


theorem ResourcePolicyDelete_deploys_placeholder_witness:
  \<open>\<exists>d'. ResourcePolicyDelete ex_policy_env (ex_resource ''7'' []) = (Inr None, d')
      \<and> Id d' = []
      \<and> calls d' =
          [GetPolicyCall ''ACC'' ''U'' ''1'' 7,
           AddPolicyCall
             (''{"@type":"policy-create","name":"Terraform Placeholder - 2022-05-01T10:00:00Z",''
              @ ''"platform":"adn","rules":[{"@type":"rule-create","description":"Placeholder ''
              @ ''rule created by the Edgecast Terraform Provider","matches":[{"features":''
              @ ''[{"type":"feature.comment","value":"Empty policy created on ''
              @ ''2022-05-01T10:00:00Z"}],"ordinal":1,"type":"match.always"}],''
              @ ''"name":"Placeholder Rule"}],"state":"locked"}'')
             ''ACC'' ''1'' ''U'',
           DeployPolicyCall
             \<lparr>Message = ''Auto-submitted policy'', PolicyID = 101, Environment = ''staging''\<rparr>
             ''ACC'' ''1'' ''U'']\<close>
proof -
  have a: "Atoi ex_policy_env (Id (ex_resource ''7'' [])) = Inr 7"
    by (simp add: ex_policy_env_def ex_resource_def)
  have g: "GetPolicy ex_policy_env (account_number (ex_resource ''7'' []))
      (customeruserid (ex_resource ''7'' [])) (portaltypeid (ex_resource ''7'' [])) 7
      = Inr (fmap_of_list [(''id'', JStr ''101''), (''platform'', JStr ''adn''),
                           (''rules'', JArr [])])"
    by (simp add: ex_policy_env_def)
  have p: "fmlookup (fmap_of_list [(''id'', JStr ''101''), (''platform'', JStr ''adn''),
      (''rules'', JArr [])]) ''platform'' = Some (JStr ''adn'')"
    by simp
  from ResourcePolicyDelete_deploys_placeholder[OF a g p] show ?thesis
    by (auto simp: ex_policy_env_def ex_resource_def)
qed

text \<open>
  C8, as the code has it. A token read whose \<^verbatim>\<open>wait_timeout\<close> does not parse reports the
  error at once, with no query made and the resource data untouched, and so does one whose
  certificate identifier does not parse. A policy read whose stored identifier does not parse
  reports the error at once and calls no API; it has by then copied the account number into the
  client configuration, and it clears the stored identifier.
\<close>

theorem input_errors_abort:
  "(ParseDuration tenv (wait_timeout cfg) = Inl err \<longrightarrow>
      DataSourceDNSTXTTokenRead tenv cfg td = Inr (Some (''invalid wait_timeout: '' @ err), td, 0))
   \<and> (ParseDuration tenv (wait_timeout cfg) = Inr timeout \<and> ProviderConfig_ok tenv
        \<and> buildCPSService tenv = None \<and> ParseInt64 tenv (certificate_id cfg) = Inl err \<longrightarrow>
      DataSourceDNSTXTTokenRead tenv cfg td
        = Inr (Some (''failed to parse certificate ID: '' @ err), td, 0))
   \<and> (Atoi env (Id d) = Inl err \<longrightarrow>
      ResourcePolicyRead env d
        = (Inr (Some (''error parsing Policy ID from state file: '' @ err)),
           d\<lparr>config_AccountNumber := account_number d, Id := []\<rparr>)
      \<and> calls (snd (ResourcePolicyRead env d)) = calls d)"
  by (simp add: DataSourceDNSTXTTokenRead_def ResourcePolicyRead_def getPolicy_def)

theorem input_errors_abort_witness:
  "DataSourceDNSTXTTokenRead (ex_env (\<lambda>i. ex_responses ''DV'' ''complete'' ex_token))
     \<lparr>certificate_id = ''42'', wait_until_available = True, wait_timeout = ''soon''\<rparr> ex_data
     = Inr (Some ''invalid wait_timeout: time: invalid duration'', ex_data, 0)
   \<and> DataSourceDNSTXTTokenRead (ex_env (\<lambda>i. ex_responses ''DV'' ''complete'' ex_token))
     \<lparr>certificate_id = ''forty-two'', wait_until_available = True, wait_timeout = ''20m''\<rparr>
     ex_data
     = Inr (Some ''failed to parse certificate ID: invalid syntax'', ex_data, 0)
   \<and> ResourcePolicyRead ex_policy_env (ex_resource ''seven'' [])
     = (Inr (Some ''error parsing Policy ID from state file: invalid syntax''),
        (ex_resource ''seven'' [])\<lparr>config_AccountNumber := ''ACC'', Id := []\<rparr>)"
  using input_errors_abort[where tenv = "ex_env (\<lambda>i. ex_responses ''DV'' ''complete'' ex_token)"
      and cfg = "\<lparr>certificate_id = ''42'', wait_until_available = True, wait_timeout = ''soon''\<rparr>"
      and err = "''time: invalid duration''" and td = ex_data]
    input_errors_abort[where tenv = "ex_env (\<lambda>i. ex_responses ''DV'' ''complete'' ex_token)"
      and cfg = "\<lparr>certificate_id = ''forty-two'', wait_until_available = True,
                   wait_timeout = ''20m''\<rparr>"
      and err = "''invalid syntax''" and td = ex_data and timeout = 1200
      and env = ex_policy_env and d = "ex_resource ''seven'' []"]
  by (simp add: ex_env_def ex_policy_env_def ex_resource_def)


text \<open>
  C8 as stated does not hold. ResourcePolicyCreate does not look at the error of
  \<^verbatim>\<open>json.Unmarshal\<close>: on a policy text that does not parse it goes on with the empty map,
  sets \<^verbatim>\<open>state\<close>, and submits and deploys the policy \<^verbatim>\<open>{"state":"locked"}\<close>. And
  ResourcePolicyRead, on an identifier that does not parse, changes the state: it clears the
  identifier.
\<close>

theorem ResourcePolicyCreate_submits_after_failed_parse:
  \<open>json_Unmarshal ex_policy_env ''{not json'' = UnmarshalError ''invalid character''
   \<and> ResourcePolicyCreate ex_policy_env (ex_resource [] ''{not json'')
     = (Inr None,
        \<lparr>Id = ''101'', account_number = ''ACC'', portaltypeid = ''1'', customeruserid = ''U'',
         deploy_to = ''staging'', deploy_request_id = ''501'',
         policy = ''{"platform":"adn","rules":[]}'', config_AccountNumber = ''ACC'',
         calls =
           [AddPolicyCall ''{"state":"locked"}'' ''ACC'' ''1'' ''U'',
            DeployPolicyCall
              \<lparr>Message = ''Auto-submitted policy'', PolicyID = 101, Environment = ''staging''\<rparr>
              ''ACC'' ''1'' ''U'',
            GetPolicyCall ''ACC'' ''U'' ''1'' 101]\<rparr>)
   \<and> Id (ex_resource ''seven'' []) = ''seven''
   \<and> Id (snd (ResourcePolicyRead ex_policy_env (ex_resource ''seven'' []))) = []\<close>
  by code_simp

end
